theory Spec2Isabelle
  imports Main "HOL-Library.Word"
begin

section \<open>The TextManipulation node of n8n-nodes-text-manipulation\<close>

text \<open>
  A shallow embedding of \<^verbatim>\<open>nodes/TextManipulation/TextManipulation.node.ts\<close>: the helper
  functions at the top of the file, the switch over \<^verbatim>\<open>manipulation.action\<close> and the loop
  of \<^verbatim>\<open>execute\<close> over items, text groups and data sources.

  JavaScript strings are sequences of UTF-16 code units. Numbers are modelled by integers
  (the parameters concerned are offsets, lengths and counts).
\<close>

subsection \<open>Strings\<close>

type_synonym code_unit = "16 word"
type_synonym jsstring = "code_unit list"
type_synonym byte = "8 word"

definition cu :: "char \<Rightarrow> code_unit" where
  "cu c = of_nat (of_char c)"

definition js :: "string \<Rightarrow> jsstring" where
  "js s = map cu s"

definition isDigit :: "code_unit \<Rightarrow> bool" where
  "isDigit c = (0x30 \<le> c \<and> c \<le> 0x39)"

definition isHexDigit :: "code_unit \<Rightarrow> bool" where
  "isHexDigit c = (isDigit c \<or> (0x41 \<le> c \<and> c \<le> 0x46) \<or> (0x61 \<le> c \<and> c \<le> 0x66))"

definition hexValue :: "code_unit \<Rightarrow> nat" where
  "hexValue c = (if isDigit c then unat c - 0x30 else if c \<le> 0x46 then unat c - 0x37 else unat c - 0x57)"

definition parseHex :: "jsstring \<Rightarrow> nat" where
  "parseHex s = foldl (\<lambda>acc c. 16 * acc + hexValue c) 0 s"

definition decimalValue :: "jsstring \<Rightarrow> nat" where
  "decimalValue ds = foldl (\<lambda>acc c. 10 * acc + (unat c - 0x30)) 0 ds"

text \<open>\<^verbatim>\<open>WhiteSpace\<close> and \<^verbatim>\<open>LineTerminator\<close> of ECMAScript: what \<^verbatim>\<open>trim\<close> removes and \<^verbatim>\<open>\s\<close> matches.\<close>

definition spaceRanges :: "(code_unit \<times> code_unit) list" where
  "spaceRanges = [(0x09, 0x0D), (0x20, 0x20), (0xA0, 0xA0), (0x1680, 0x1680), (0x2000, 0x200A),
     (0x2028, 0x2029), (0x202F, 0x202F), (0x205F, 0x205F), (0x3000, 0x3000), (0xFEFF, 0xFEFF)]"

definition inRanges :: "(code_unit \<times> code_unit) list \<Rightarrow> code_unit \<Rightarrow> bool" where
  "inRanges rs c = list_ex (\<lambda>(lo, hi). lo \<le> c \<and> c \<le> hi) rs"

definition isWhiteSpace :: "code_unit \<Rightarrow> bool" where
  "isWhiteSpace c = inRanges spaceRanges c"

definition isLineTerminator :: "code_unit \<Rightarrow> bool" where
  "isLineTerminator c = (c = 0x0A \<or> c = 0x0D \<or> c = 0x2028 \<or> c = 0x2029)"

subsection \<open>Errors\<close>

text \<open>
  \<open>NodeOperationError\<close> carries the message and the \<^verbatim>\<open>itemIndex\<close> the source passes.
  \<open>SyntaxError\<close> is what the \<^verbatim>\<open>RegExp\<close> constructor throws. \<open>LibraryError\<close> is an exception
  of an external library. \<open>OutsideModel\<close> is not a behaviour of the program: it marks an
  input on which this embedding does not say what the program does (a regular-expression
  feature that is not interpreted here, a number beyond the safe integers, a property
  that an object inherits, an exhausted recursion budget).
\<close>

datatype error = NodeOperationError string nat | SyntaxError | LibraryError string | OutsideModel

subsection \<open>String.prototype methods\<close>

text \<open>\<^verbatim>\<open>substring(start, end)\<close>: both bounds are clamped to \<open>[0, length]\<close>, then swapped if needed.\<close>

definition js_substring :: "jsstring \<Rightarrow> int \<Rightarrow> int option \<Rightarrow> jsstring" where
  "js_substring s start end_opt =
     (let len = int (length s);
          intEnd = (case end_opt of None \<Rightarrow> len | Some e \<Rightarrow> e);
          finalStart = min (max start 0) len;
          finalEnd = min (max intEnd 0) len;
          from = min finalStart finalEnd;
          to = max finalStart finalEnd
      in take (nat (to - from)) (drop (nat from) s))"

definition stringPad :: "jsstring \<Rightarrow> int \<Rightarrow> jsstring \<Rightarrow> bool \<Rightarrow> jsstring" where
  "stringPad s maxLength fillString atStart =
     (let intMaxLength = max maxLength 0;
          stringLength = int (length s)
      in if intMaxLength \<le> stringLength then s
         else if fillString = [] then s
         else
           (let fillLen = nat (intMaxLength - stringLength);
                truncatedStringFiller = take fillLen (concat (replicate fillLen fillString))
            in if atStart then truncatedStringFiller @ s else s @ truncatedStringFiller))"

definition js_padStart :: "jsstring \<Rightarrow> int \<Rightarrow> jsstring \<Rightarrow> jsstring" where
  "js_padStart s targetLength padString = stringPad s targetLength padString True"

definition js_padEnd :: "jsstring \<Rightarrow> int \<Rightarrow> jsstring \<Rightarrow> jsstring" where
  "js_padEnd s targetLength padString = stringPad s targetLength padString False"

definition js_repeat :: "jsstring \<Rightarrow> int \<Rightarrow> jsstring" where
  "js_repeat s n = concat (replicate (nat n) s)"

definition js_trimStart :: "jsstring \<Rightarrow> jsstring" where
  "js_trimStart s = dropWhile isWhiteSpace s"

definition js_trimEnd :: "jsstring \<Rightarrow> jsstring" where
  "js_trimEnd s = rev (dropWhile isWhiteSpace (rev s))"

definition js_trim :: "jsstring \<Rightarrow> jsstring" where
  "js_trim s = js_trimEnd (js_trimStart s)"

text \<open>\<^verbatim>\<open>split(' ')\<close> and \<^verbatim>\<open>join(' ')\<close>.\<close>

fun js_split :: "code_unit \<Rightarrow> jsstring \<Rightarrow> jsstring list" where
  "js_split sep [] = [[]]"
| "js_split sep (c # s) =
     (if c = sep then [] # js_split sep s
      else (case js_split sep s of [] \<Rightarrow> [[c]] | w # ws \<Rightarrow> (c # w) # ws))"

fun js_join :: "jsstring \<Rightarrow> jsstring list \<Rightarrow> jsstring" where
  "js_join sep [] = []"
| "js_join sep [w] = w"
| "js_join sep (w # v # ws) = w @ sep @ js_join sep (v # ws)"

fun indexOf :: "jsstring \<Rightarrow> jsstring \<Rightarrow> nat option" where
  "indexOf [] search = (if search = [] then Some 0 else None)"
| "indexOf (c # s) search =
     (if take (length search) (c # s) = search then Some 0
      else map_option Suc (indexOf s search))"

text \<open>
  A number of the model is an integer. A template literal and \<^verbatim>\<open>toString()\<close> print the decimal
  digits of a safe integer (at most \<open>2^53 - 1\<close> in absolute value). A larger number prints the
  shortest digits that read back as the same number, in exponent form from \<open>10^21\<close> on: it
  is outside the model, as is a number that is not an integer.
\<close>

fun natDigits :: "nat \<Rightarrow> jsstring" where
  "natDigits n = (if n < 10 then [of_nat (48 + n)] else natDigits (n div 10) @ [of_nat (48 + n mod 10)])"

definition maxSafeInteger :: int where
  "maxSafeInteger = 9007199254740991"

definition numberToString :: "int \<Rightarrow> error + jsstring" where
  "numberToString i =
     (if abs i \<le> maxSafeInteger
      then Inr (if i < 0 then cu CHR ''-'' # natDigits (nat (- i)) else natDigits (nat i))
      else Inl OutsideModel)"

subsection \<open>Regular expressions\<close>

text \<open>
  \<^verbatim>\<open>RegExp\<close> is the JavaScript engine's. The program builds its patterns from strings, so the
  embedding interprets pattern strings: the pattern grammar of ECMAScript, restricted to
  literals, \<^verbatim>\<open>.\<close>, character classes, the escapes \<^verbatim>\<open>\d \D \s \S \w \W \f \n \r \t \v \0 \xHH \uHHHH\<close>,
  identity escapes, \<^verbatim>\<open>^\<close> and \<^verbatim>\<open>$\<close>, capturing and non-capturing groups, alternation and the
  quantifiers \<^verbatim>\<open>* + ? {n} {n,} {n,m}\<close>, greedy and lazy; and the flags \<^verbatim>\<open>d g i m s u v y\<close>.
  The grammar has three modes. Without the flags \<^verbatim>\<open>u\<close> and \<^verbatim>\<open>v\<close> it is the grammar of Annex B:
  a brace or a closing bracket that does not fit is a literal, any character may be
  escaped, a dash beside a class escape is a dash. With \<^verbatim>\<open>u\<close> or \<^verbatim>\<open>v\<close> these are syntax errors,
  and the pattern and the text are read as code points; the embedding reads code units,
  which is the same as long as neither has a surrogate. Anything else (back references,
  look-around, word boundaries, named groups, \<^verbatim>\<open>\p\<close>, \<^verbatim>\<open>\u{...}\<close>, surrogates with \<^verbatim>\<open>u\<close> or \<^verbatim>\<open>v\<close>,
  a class with \<^verbatim>\<open>v\<close>, case folding beyond ASCII) gives \<open>OutsideModel\<close>.
  Matching is the backtracking semantics of the language specification, written with
  continuations: a matcher takes the continuation that tries the rest of the pattern.
\<close>

datatype cset = CRanges "(code_unit \<times> code_unit) list" | CNot cset | COr cset cset

datatype regex =
    REmpty
  | RChar code_unit
  | RClass bool cset
  | RDot
  | RBol
  | REol
  | RGroup nat regex
  | RSeq regex regex
  | RAlt regex regex
  | RRepeat regex nat "nat option" bool

fun in_cset :: "cset \<Rightarrow> code_unit \<Rightarrow> bool" where
  "in_cset (CRanges rs) c = inRanges rs c"
| "in_cset (CNot s) c = (\<not> in_cset s c)"
| "in_cset (COr s t) c = (in_cset s c \<or> in_cset t c)"

fun groupIndices :: "regex \<Rightarrow> nat list" where
  "groupIndices (RGroup n r) = n # groupIndices r"
| "groupIndices (RSeq a b) = groupIndices a @ groupIndices b"
| "groupIndices (RAlt a b) = groupIndices a @ groupIndices b"
| "groupIndices (RRepeat r _ _ _) = groupIndices r"
| "groupIndices _ = []"

fun maxMin :: "regex \<Rightarrow> nat" where
  "maxMin (RRepeat r lo hi g) = max lo (maxMin r)"
| "maxMin (RGroup n r) = maxMin r"
| "maxMin (RSeq a b) = max (maxMin a) (maxMin b)"
| "maxMin (RAlt a b) = max (maxMin a) (maxMin b)"
| "maxMin _ = 0"

type_synonym captures = "(nat \<times> nat) option list"
type_synonym mstate = "nat \<times> captures"

record rx_env =
  ignoreCase :: bool
  multiline :: bool
  dotAll :: bool
  input :: jsstring
  budget :: nat

text \<open>
  \<^verbatim>\<open>Canonicalize\<close> without the \<^verbatim>\<open>u\<close> flag is \<^verbatim>\<open>toUpperCase\<close>; here on ASCII. A class matches a
  character when the class has a member with the same canonical form, and an inverted
  class (\<open>RClass True\<close>) when it has none.
\<close>

definition canonicalize :: "bool \<Rightarrow> code_unit \<Rightarrow> code_unit" where
  "canonicalize ic c = (if ic \<and> 0x61 \<le> c \<and> c \<le> 0x7A then c - 0x20 else c)"

definition otherCase :: "code_unit \<Rightarrow> code_unit" where
  "otherCase c = (if 0x61 \<le> c \<and> c \<le> 0x7A then c - 0x20
                  else if 0x41 \<le> c \<and> c \<le> 0x5A then c + 0x20 else c)"

text \<open>
  The third argument counts the iterations a quantifier may still make. A quantifier entered
  with \<open>budget E\<close> (the length of the input, plus the largest lower bound of the pattern, plus
  one) never uses it up: after its mandatory iterations every iteration consumes input.
\<close>

fun rx_match :: "rx_env \<Rightarrow> regex \<Rightarrow> nat \<Rightarrow> (mstate \<Rightarrow> mstate option) \<Rightarrow> mstate \<Rightarrow> mstate option" where
  "rx_match E REmpty n k x = k x"
| "rx_match E (RChar c) n k x =
     (if fst x < length (input E) \<and>
         canonicalize (ignoreCase E) (input E ! fst x) = canonicalize (ignoreCase E) c
      then k (Suc (fst x), snd x) else None)"
| "rx_match E (RClass invert s) n k x =
     (if fst x < length (input E) \<and>
         ((in_cset s (input E ! fst x) \<or> (ignoreCase E \<and> in_cset s (otherCase (input E ! fst x)))) \<noteq> invert)
      then k (Suc (fst x), snd x) else None)"
| "rx_match E RDot n k x =
     (if fst x < length (input E) \<and> (dotAll E \<or> \<not> isLineTerminator (input E ! fst x))
      then k (Suc (fst x), snd x) else None)"
| "rx_match E RBol n k x =
     (if fst x = 0 \<or> (multiline E \<and> isLineTerminator (input E ! (fst x - 1))) then k x else None)"
| "rx_match E REol n k x =
     (if fst x = length (input E) \<or> (multiline E \<and> isLineTerminator (input E ! fst x)) then k x else None)"
| "rx_match E (RGroup i r) n k x =
     rx_match E r (budget E) (\<lambda>y. k (fst y, (snd y)[i - 1 := Some (fst x, fst y)])) x"
| "rx_match E (RSeq a b) n k x =
     rx_match E a (budget E) (\<lambda>y. rx_match E b (budget E) k y) x"
| "rx_match E (RAlt a b) n k x =
     (case rx_match E a (budget E) k x of Some z \<Rightarrow> Some z | None \<Rightarrow> rx_match E b (budget E) k x)"
| "rx_match E (RRepeat r lo hi greedy) n k x =
     (if hi = Some 0 then k x
      else
        let d = (\<lambda>y. if lo = 0 \<and> fst y = fst x then None
                      else case n of 0 \<Rightarrow> None
                           | Suc n' \<Rightarrow> rx_match E (RRepeat r (lo - 1) (map_option (\<lambda>h. h - 1) hi) greedy) n' k y);
            xr = (fst x, fold (\<lambda>i cs. cs[i - 1 := None]) (groupIndices r) (snd x))
        in if lo \<noteq> 0 then rx_match E r (budget E) d xr
           else if \<not> greedy then (case k x of Some z \<Rightarrow> Some z | None \<Rightarrow> rx_match E r (budget E) d xr)
           else (case rx_match E r (budget E) d xr of Some z \<Rightarrow> Some z | None \<Rightarrow> k x))"

text \<open>Parsing a pattern string.\<close>

datatype syntaxMode = Legacy | UnicodeMode | UnicodeSets

definition isSurrogate :: "code_unit \<Rightarrow> bool" where
  "isSurrogate c = (0xD800 \<le> c \<and> c \<le> 0xDFFF)"

text \<open>With \<^verbatim>\<open>u\<close> or \<^verbatim>\<open>v\<close> an identity escape is a syntax character or the slash.\<close>

definition unicodeIdentityEscape :: "code_unit \<Rightarrow> bool" where
  "unicodeIdentityEscape c = (c \<in> set (0x5C # js ''^$.*+?()[]{}|/''))"

definition digitRanges :: "(code_unit \<times> code_unit) list" where
  "digitRanges = [(0x30, 0x39)]"

definition wordRanges :: "(code_unit \<times> code_unit) list" where
  "wordRanges = [(0x30, 0x39), (0x41, 0x5A), (0x5F, 0x5F), (0x61, 0x7A)]"

fun readDigits :: "jsstring \<Rightarrow> jsstring \<times> jsstring" where
  "readDigits [] = ([], [])"
| "readDigits (c # s) = (if isDigit c then (let (ds, r) = readDigits s in (c # ds, r)) else ([], c # s))"

text \<open>The text after an opening brace, when it is a quantifier: \<^verbatim>\<open>n}\<close>, \<^verbatim>\<open>n,}\<close> or \<^verbatim>\<open>n,m}\<close>.\<close>

definition parseBraces :: "jsstring \<Rightarrow> ((nat \<times> nat option) \<times> jsstring) option" where
  "parseBraces s =
     (case readDigits s of
        ([], _) \<Rightarrow> None
      | (ds, r) \<Rightarrow>
         (case r of
            [] \<Rightarrow> None
          | c # r1 \<Rightarrow>
              if c = cu CHR ''}'' then Some ((decimalValue ds, Some (decimalValue ds)), r1)
              else if c = cu CHR '','' then
                (case readDigits r1 of
                   (es, r2) \<Rightarrow>
                     (case r2 of
                        [] \<Rightarrow> None
                      | c2 # r3 \<Rightarrow>
                          if c2 = cu CHR ''}''
                          then Some ((decimalValue ds, if es = [] then None else Some (decimalValue es)), r3)
                          else None))
              else None))"

definition parseQuantifier :: "jsstring \<Rightarrow> error + ((nat \<times> nat option \<times> bool) option \<times> jsstring)" where
  "parseQuantifier s =
     (let q = (case s of
                 [] \<Rightarrow> None
               | c # r \<Rightarrow>
                   if c = cu CHR ''*'' then Some ((0, None), r)
                   else if c = cu CHR ''+'' then Some ((1, None), r)
                   else if c = cu CHR ''?'' then Some ((0, Some 1), r)
                   else if c = cu CHR ''{'' then parseBraces r
                   else None)
      in case q of
           None \<Rightarrow> Inr (None, s)
         | Some ((lo, hi), r) \<Rightarrow>
             if (case hi of None \<Rightarrow> False | Some h \<Rightarrow> h < lo) then Inl SyntaxError
             else (case r of
                     [] \<Rightarrow> Inr (Some (lo, hi, True), r)
                   | c # r1 \<Rightarrow> if c = cu CHR ''?'' then Inr (Some (lo, hi, False), r1)
                              else Inr (Some (lo, hi, True), r)))"

definition applyQuantifier :: "regex \<Rightarrow> jsstring \<Rightarrow> nat \<Rightarrow> error + regex \<times> jsstring \<times> nat" where
  "applyQuantifier a s g =
     (case parseQuantifier s of
        Inl e \<Rightarrow> Inl e
      | Inr (None, r) \<Rightarrow> Inr (a, r, g)
      | Inr (Some (lo, hi, greedy), r) \<Rightarrow> Inr (RRepeat a lo hi greedy, r, g))"

text \<open>The escapes that an atom and a class member share; \<open>None\<close> for an identity escape.\<close>

definition parseCommonEscape :: "code_unit \<Rightarrow> jsstring \<Rightarrow> (error + (code_unit + cset) \<times> jsstring) option" where
  "parseCommonEscape c r =
     (if c = cu CHR ''d'' then Some (Inr (Inr (CRanges digitRanges), r))
      else if c = cu CHR ''D'' then Some (Inr (Inr (CNot (CRanges digitRanges)), r))
      else if c = cu CHR ''s'' then Some (Inr (Inr (CRanges spaceRanges), r))
      else if c = cu CHR ''S'' then Some (Inr (Inr (CNot (CRanges spaceRanges)), r))
      else if c = cu CHR ''w'' then Some (Inr (Inr (CRanges wordRanges), r))
      else if c = cu CHR ''W'' then Some (Inr (Inr (CNot (CRanges wordRanges)), r))
      else if c = cu CHR ''f'' then Some (Inr (Inl 0x0C, r))
      else if c = cu CHR ''n'' then Some (Inr (Inl 0x0A, r))
      else if c = cu CHR ''r'' then Some (Inr (Inl 0x0D, r))
      else if c = cu CHR ''t'' then Some (Inr (Inl 0x09, r))
      else if c = cu CHR ''v'' then Some (Inr (Inl 0x0B, r))
      else if c = cu CHR ''0'' then
        (case r of d # _ \<Rightarrow> if isDigit d then Some (Inl OutsideModel) else Some (Inr (Inl 0, r))
         | [] \<Rightarrow> Some (Inr (Inl 0, r)))
      else if isDigit c \<or> c = cu CHR ''c'' \<or> c = cu CHR ''k'' then Some (Inl OutsideModel)
      else if c = cu CHR ''x'' then
        (if length r \<ge> 2 \<and> list_all isHexDigit (take 2 r)
         then Some (Inr (Inl (of_nat (parseHex (take 2 r))), drop 2 r)) else Some (Inl OutsideModel))
      else if c = cu CHR ''u'' then
        (if length r \<ge> 4 \<and> list_all isHexDigit (take 4 r)
         then Some (Inr (Inl (of_nat (parseHex (take 4 r))), drop 4 r)) else Some (Inl OutsideModel))
      else None)"

definition parseClassAtom :: "syntaxMode \<Rightarrow> jsstring \<Rightarrow> error + (code_unit + cset) \<times> jsstring" where
  "parseClassAtom m s =
     (case s of
        [] \<Rightarrow> Inl SyntaxError
      | c # r \<Rightarrow>
          if c = 0x5C then
            (case r of
               [] \<Rightarrow> Inl SyntaxError
             | e # r1 \<Rightarrow>
                 if e = cu CHR ''b'' then Inr (Inl 0x08, r1)
                 else if m \<noteq> Legacy \<and> (e = cu CHR ''p'' \<or> e = cu CHR ''P'') then Inl OutsideModel
                 else (case parseCommonEscape e r1 of
                         Some (Inl err) \<Rightarrow> Inl err
                       | Some (Inr (Inl ch, r2)) \<Rightarrow>
                           if m \<noteq> Legacy \<and> isSurrogate ch then Inl OutsideModel else Inr (Inl ch, r2)
                       | Some (Inr (Inr cs, r2)) \<Rightarrow> Inr (Inr cs, r2)
                       | None \<Rightarrow>
                           if m \<noteq> Legacy \<and> \<not> unicodeIdentityEscape e \<and> e \<noteq> cu CHR ''-''
                           then Inl SyntaxError else Inr (Inl e, r1)))
          else if m \<noteq> Legacy \<and> isSurrogate c then Inl OutsideModel
          else Inr (Inl c, r))"

definition atomSet :: "code_unit + cset \<Rightarrow> cset" where
  "atomSet a = (case a of Inl c \<Rightarrow> CRanges [(c, c)] | Inr s \<Rightarrow> s)"

text \<open>
  One member of a class: an atom, or a range \<^verbatim>\<open>a-b\<close>; a dash beside a class escape is a dash
  in the grammar of Annex B and a syntax error with \<^verbatim>\<open>u\<close>.
\<close>

definition parseClassMember :: "syntaxMode \<Rightarrow> jsstring \<Rightarrow> error + cset \<times> jsstring" where
  "parseClassMember m s =
     (case parseClassAtom m s of
        Inl e \<Rightarrow> Inl e
      | Inr (a, r1) \<Rightarrow>
          (case r1 of
             d # t # r2 \<Rightarrow>
               if d = cu CHR ''-'' \<and> t \<noteq> cu CHR '']'' then
                 (case parseClassAtom m (t # r2) of
                    Inl e \<Rightarrow> Inl e
                  | Inr (b, r3) \<Rightarrow>
                      (case (a, b) of
                         (Inl x, Inl y) \<Rightarrow> if y < x then Inl SyntaxError else Inr (CRanges [(x, y)], r3)
                       | _ \<Rightarrow> if m \<noteq> Legacy then Inl SyntaxError
                              else Inr (COr (atomSet a) (COr (CRanges [(0x2D, 0x2D)]) (atomSet b)), r3)))
               else Inr (atomSet a, r1)
           | _ \<Rightarrow> Inr (atomSet a, r1)))"

fun parseClassRanges :: "syntaxMode \<Rightarrow> nat \<Rightarrow> jsstring \<Rightarrow> error + cset \<times> jsstring" where
  "parseClassRanges m 0 s = Inl OutsideModel"
| "parseClassRanges m (Suc f) [] = Inl SyntaxError"
| "parseClassRanges m (Suc f) (c # r) =
     (if c = cu CHR '']'' then Inr (CRanges [], r)
      else (case parseClassMember m (c # r) of
              Inl e \<Rightarrow> Inl e
            | Inr (member, r1) \<Rightarrow>
                (case parseClassRanges m f r1 of
                   Inl e \<Rightarrow> Inl e
                 | Inr (rest, r2) \<Rightarrow> Inr (COr member rest, r2))))"

text \<open>A class; with \<^verbatim>\<open>v\<close> a class has another grammar, which is outside the model.\<close>

definition parseClass :: "syntaxMode \<Rightarrow> jsstring \<Rightarrow> error + regex \<times> jsstring" where
  "parseClass m s =
     (if m = UnicodeSets then Inl OutsideModel
      else
        (case s of
           c # r \<Rightarrow>
             if c = cu CHR ''^'' then
               (case parseClassRanges m (Suc (length r)) r of
                  Inl e \<Rightarrow> Inl e
                | Inr (cs, r1) \<Rightarrow> Inr (RClass True cs, r1))
             else (case parseClassRanges m (Suc (length s)) s of
                     Inl e \<Rightarrow> Inl e
                   | Inr (cs, r1) \<Rightarrow> Inr (RClass False cs, r1))
         | [] \<Rightarrow> Inl SyntaxError))"

text \<open>A term that is not a group: an assertion, or an atom with its quantifier.\<close>

definition parseSimpleTerm :: "syntaxMode \<Rightarrow> code_unit \<Rightarrow> jsstring \<Rightarrow> nat \<Rightarrow> error + regex \<times> jsstring \<times> nat" where
  "parseSimpleTerm m c r g =
     (if c = cu CHR ''^'' then Inr (RBol, r, g)
      else if c = cu CHR ''$'' then Inr (REol, r, g)
      else if c = cu CHR ''*'' \<or> c = cu CHR ''+'' \<or> c = cu CHR ''?'' then Inl SyntaxError
      else if c = cu CHR ''{'' then
        (if m \<noteq> Legacy then Inl SyntaxError
         else (case parseBraces r of Some _ \<Rightarrow> Inl SyntaxError | None \<Rightarrow> applyQuantifier (RChar c) r g))
      else if m \<noteq> Legacy \<and> (c = cu CHR ''}'' \<or> c = cu CHR '']'') then Inl SyntaxError
      else if c = cu CHR ''.'' then applyQuantifier RDot r g
      else if c = cu CHR ''['' then
        (case parseClass m r of Inl e \<Rightarrow> Inl e | Inr (a, r1) \<Rightarrow> applyQuantifier a r1 g)
      else if c = 0x5C then
        (case r of
           [] \<Rightarrow> Inl SyntaxError
         | e # r1 \<Rightarrow>
             if e = cu CHR ''b'' \<or> e = cu CHR ''B'' then Inl OutsideModel
             else if m \<noteq> Legacy \<and> (e = cu CHR ''p'' \<or> e = cu CHR ''P'') then Inl OutsideModel
             else (case parseCommonEscape e r1 of
                     Some (Inl err) \<Rightarrow> Inl err
                   | Some (Inr (Inl ch, r2)) \<Rightarrow>
                       if m \<noteq> Legacy \<and> isSurrogate ch then Inl OutsideModel
                       else applyQuantifier (RChar ch) r2 g
                   | Some (Inr (Inr cs, r2)) \<Rightarrow> applyQuantifier (RClass False cs) r2 g
                   | None \<Rightarrow>
                       if m \<noteq> Legacy \<and> \<not> unicodeIdentityEscape e then Inl SyntaxError
                       else applyQuantifier (RChar e) r1 g))
      else if m \<noteq> Legacy \<and> isSurrogate c then Inl OutsideModel
      else applyQuantifier (RChar c) r g)"

text \<open>What follows an opening parenthesis: \<open>Some True\<close> capturing, \<open>Some False\<close> for \<^verbatim>\<open>(?:\<close>.\<close>

definition groupKind :: "jsstring \<Rightarrow> (bool \<times> jsstring) option" where
  "groupKind r =
     (case r of
        q # k # r2 \<Rightarrow>
          if q = cu CHR ''?'' then (if k = cu CHR '':'' then Some (False, r2) else None)
          else Some (True, r)
      | _ \<Rightarrow> (if r = [cu CHR ''?''] then None else Some (True, r)))"

definition closeGroup :: "bool \<Rightarrow> nat \<Rightarrow> error + regex \<times> jsstring \<times> nat \<Rightarrow> error + regex \<times> jsstring \<times> nat" where
  "closeGroup capturing g res =
     (case res of
        Inl e \<Rightarrow> Inl e
      | Inr (d, r3, g1) \<Rightarrow>
          (case r3 of
             [] \<Rightarrow> Inl SyntaxError
           | p # r4 \<Rightarrow>
               if p = cu CHR '')'' then applyQuantifier (if capturing then RGroup (Suc g) d else d) r4 g1
               else Inl SyntaxError))"

fun parseDisjunction :: "syntaxMode \<Rightarrow> nat \<Rightarrow> jsstring \<Rightarrow> nat \<Rightarrow> error + regex \<times> jsstring \<times> nat"
and parseAlternative :: "syntaxMode \<Rightarrow> nat \<Rightarrow> jsstring \<Rightarrow> nat \<Rightarrow> error + regex \<times> jsstring \<times> nat"
and parseTerm :: "syntaxMode \<Rightarrow> nat \<Rightarrow> code_unit \<Rightarrow> jsstring \<Rightarrow> nat \<Rightarrow> error + regex \<times> jsstring \<times> nat"
where
  "parseDisjunction m 0 s g = Inl OutsideModel"
| "parseDisjunction m (Suc f) s g =
     (case parseAlternative m f s g of
        Inl e \<Rightarrow> Inl e
      | Inr (a, r, g1) \<Rightarrow>
          (if r \<noteq> [] \<and> hd r = cu CHR ''|''
           then (case parseDisjunction m f (tl r) g1 of Inl e \<Rightarrow> Inl e | Inr (b, r2, g2) \<Rightarrow> Inr (RAlt a b, r2, g2))
           else Inr (a, r, g1)))"
| "parseAlternative m 0 s g = Inl OutsideModel"
| "parseAlternative m (Suc f) [] g = Inr (REmpty, [], g)"
| "parseAlternative m (Suc f) (c # r) g =
     (if c = cu CHR ''|'' \<or> c = cu CHR '')'' then Inr (REmpty, c # r, g)
      else
        (case parseTerm m f c r g of
           Inl e \<Rightarrow> Inl e
         | Inr (t, r1, g1) \<Rightarrow>
             (case parseAlternative m f r1 g1 of Inl e \<Rightarrow> Inl e | Inr (a, r2, g2) \<Rightarrow> Inr (RSeq t a, r2, g2))))"
| "parseTerm m 0 c r g = Inl OutsideModel"
| "parseTerm m (Suc f) c r g =
     (if c = cu CHR ''('' then
        (case groupKind r of
           None \<Rightarrow> Inl OutsideModel
         | Some (capturing, r1) \<Rightarrow>
             closeGroup capturing g (parseDisjunction m f r1 (if capturing then Suc g else g)))
      else parseSimpleTerm m c r g)"

definition parsePattern :: "syntaxMode \<Rightarrow> jsstring \<Rightarrow> error + regex \<times> nat" where
  "parsePattern m p =
     (case parseDisjunction m (3 * length p + 3) p 0 of
        Inl e \<Rightarrow> Inl e
      | Inr (r, [], g) \<Rightarrow> Inr (r, g)
      | Inr (r, _ # _, g) \<Rightarrow> Inl SyntaxError)"

text \<open>\<^verbatim>\<open>new RegExp(pattern, flags)\<close>.\<close>

record js_regexp =
  rx_ast :: regex
  rx_groups :: nat
  rx_global :: bool
  rx_ignoreCase :: bool
  rx_multiline :: bool
  rx_dotAll :: bool
  rx_sticky :: bool
  rx_unicode :: bool

text \<open>
  The flags: each of \<^verbatim>\<open>d g i m s u v y\<close> at most once, and not \<^verbatim>\<open>u\<close> together with \<^verbatim>\<open>v\<close>. The flag
  \<^verbatim>\<open>d\<close> adds the indices of the captures to a match, which \<^verbatim>\<open>replace\<close> does not read.
\<close>

fun parseFlags :: "jsstring \<Rightarrow> code_unit list \<Rightarrow> error + code_unit list" where
  "parseFlags [] seen = Inr seen"
| "parseFlags (c # r) seen =
     (if c \<in> set seen then Inl SyntaxError
      else if c \<in> set (js ''dgimsuvy'') then parseFlags r (c # seen)
      else Inl SyntaxError)"

definition new_RegExp :: "jsstring \<Rightarrow> jsstring \<Rightarrow> error + js_regexp" where
  "new_RegExp p flags =
     (case parseFlags flags [] of
        Inl e \<Rightarrow> Inl e
      | Inr fs \<Rightarrow>
          if cu CHR ''u'' \<in> set fs \<and> cu CHR ''v'' \<in> set fs then Inl SyntaxError
          else
            (let m = (if cu CHR ''v'' \<in> set fs then UnicodeSets
                      else if cu CHR ''u'' \<in> set fs then UnicodeMode else Legacy)
             in case parsePattern m p of
                  Inl e \<Rightarrow> Inl e
                | Inr (r, g) \<Rightarrow>
                    if cu CHR ''i'' \<in> set fs \<and> list_ex (\<lambda>c. 0x80 \<le> c) p then Inl OutsideModel
                    else Inr \<lparr>rx_ast = r, rx_groups = g,
                              rx_global = (cu CHR ''g'' \<in> set fs), rx_ignoreCase = (cu CHR ''i'' \<in> set fs),
                              rx_multiline = (cu CHR ''m'' \<in> set fs), rx_dotAll = (cu CHR ''s'' \<in> set fs),
                              rx_sticky = (cu CHR ''y'' \<in> set fs), rx_unicode = (m \<noteq> Legacy)\<rparr>))"

definition rx_env_of :: "js_regexp \<Rightarrow> jsstring \<Rightarrow> rx_env" where
  "rx_env_of R s = \<lparr>ignoreCase = rx_ignoreCase R, multiline = rx_multiline R, dotAll = rx_dotAll R,
                     input = s, budget = length s + maxMin (rx_ast R) + 1\<rparr>"

text \<open>
  A match: start index, end index, captures. \<^verbatim>\<open>RegExpBuiltinExec\<close> tries each index from
  \<^verbatim>\<open>lastIndex\<close>, and with the flag \<^verbatim>\<open>y\<close> the index \<^verbatim>\<open>lastIndex\<close> only.
\<close>

type_synonym match_result = "nat \<times> nat \<times> captures"

definition matchAt :: "js_regexp \<Rightarrow> jsstring \<Rightarrow> nat \<Rightarrow> mstate option" where
  "matchAt R s i =
     rx_match (rx_env_of R s) (rx_ast R) (budget (rx_env_of R s)) Some (i, replicate (rx_groups R) None)"

fun firstMatch :: "js_regexp \<Rightarrow> jsstring \<Rightarrow> nat list \<Rightarrow> match_result option" where
  "firstMatch R s [] = None"
| "firstMatch R s (i # is) =
     (case matchAt R s i of Some (e, cs) \<Rightarrow> Some (i, e, cs) | None \<Rightarrow> firstMatch R s is)"

definition regExpExec :: "js_regexp \<Rightarrow> jsstring \<Rightarrow> nat \<Rightarrow> match_result option" where
  "regExpExec R s lastIndex =
     firstMatch R s (if rx_sticky R then (if lastIndex \<le> length s then [lastIndex] else [])
                     else [lastIndex ..< Suc (length s)])"

text \<open>
  The loop of \<^verbatim>\<open>RegExp.prototype[Symbol.replace]\<close> for a global expression: after an empty
  match \<^verbatim>\<open>lastIndex\<close> advances by one. \<^verbatim>\<open>lastIndex\<close> grows at every round, so \<open>length s + 2\<close>
  rounds are enough.
\<close>

fun allMatches :: "nat \<Rightarrow> js_regexp \<Rightarrow> jsstring \<Rightarrow> nat \<Rightarrow> match_result list" where
  "allMatches 0 R s lastIndex = []"
| "allMatches (Suc f) R s lastIndex =
     (case regExpExec R s lastIndex of
        None \<Rightarrow> []
      | Some (i, e, cs) \<Rightarrow> (i, e, cs) # allMatches f R s (if e = i then Suc e else e))"

definition regexMatches :: "js_regexp \<Rightarrow> jsstring \<Rightarrow> match_result list" where
  "regexMatches R s =
     (if rx_global R then allMatches (length s + 2) R s 0
      else (case regExpExec R s 0 of None \<Rightarrow> [] | Some m \<Rightarrow> [m]))"

definition captureText :: "jsstring \<Rightarrow> captures \<Rightarrow> nat \<Rightarrow> jsstring option" where
  "captureText s cs n = (case cs ! (n - 1) of None \<Rightarrow> None | Some (b, e) \<Rightarrow> Some (take (e - b) (drop b s)))"

definition captureTexts :: "jsstring \<Rightarrow> nat \<Rightarrow> captures \<Rightarrow> jsstring option list" where
  "captureTexts s n cs = map (captureText s cs) [1 ..< Suc n]"

definition fromOption :: "jsstring option \<Rightarrow> jsstring" where
  "fromOption x = (case x of None \<Rightarrow> [] | Some s \<Rightarrow> s)"

text \<open>
  \<^verbatim>\<open>GetSubstitution\<close>: the replacement template with \<^verbatim>\<open>$$\<close>, \<^verbatim>\<open>$&\<close>, \<^verbatim>\<open>$`\<close>, \<^verbatim>\<open>$'\<close>, \<^verbatim>\<open>$n\<close> and \<^verbatim>\<open>$nn\<close>
  (there are no named groups, so \<^verbatim>\<open>$<\<close> stays as it is).
\<close>

fun getSubstitution :: "jsstring \<Rightarrow> jsstring \<Rightarrow> nat \<Rightarrow> jsstring option list \<Rightarrow> jsstring \<Rightarrow> jsstring" where
  "getSubstitution matched str position caps [] = []"
| "getSubstitution matched str position caps [c] = [c]"
| "getSubstitution matched str position caps (c # d # t) =
     (if c \<noteq> cu CHR ''$'' then c # getSubstitution matched str position caps (d # t)
      else if d = cu CHR ''$'' then cu CHR ''$'' # getSubstitution matched str position caps t
      else if d = cu CHR ''&'' then matched @ getSubstitution matched str position caps t
      else if d = 0x60 then take position str @ getSubstitution matched str position caps t
      else if d = 0x27 then drop (position + length matched) str @ getSubstitution matched str position caps t
      else if isDigit d then
        (let one = unat d - 0x30 in
         case t of
           e # t' \<Rightarrow>
             if isDigit e \<and> 1 \<le> 10 * one + (unat e - 0x30) \<and> 10 * one + (unat e - 0x30) \<le> length caps
             then fromOption (caps ! (10 * one + (unat e - 0x30) - 1)) @ getSubstitution matched str position caps t'
             else if 1 \<le> one \<and> one \<le> length caps
             then fromOption (caps ! (one - 1)) @ getSubstitution matched str position caps t
             else c # d # getSubstitution matched str position caps t
         | [] \<Rightarrow>
             if 1 \<le> one \<and> one \<le> length caps then fromOption (caps ! (one - 1)) else [c, d])
      else c # getSubstitution matched str position caps (d # t))"

fun assemble :: "jsstring \<Rightarrow> (match_result \<Rightarrow> jsstring) \<Rightarrow> match_result list \<Rightarrow> nat \<Rightarrow> jsstring" where
  "assemble s f [] nextSourcePosition = drop nextSourcePosition s"
| "assemble s f ((i, e, cs) # ms) nextSourcePosition =
     (if nextSourcePosition \<le> i
      then take (i - nextSourcePosition) (drop nextSourcePosition s) @ f (i, e, cs) @ assemble s f ms e
      else assemble s f ms nextSourcePosition)"

text \<open>\<^verbatim>\<open>str.replace(regexp, f)\<close> with a replacer function of the match, the captures and the position.\<close>

definition js_replace_fn ::
  "jsstring \<Rightarrow> js_regexp \<Rightarrow> (jsstring \<Rightarrow> jsstring option list \<Rightarrow> nat \<Rightarrow> jsstring) \<Rightarrow> error + jsstring" where
  "js_replace_fn s R f =
     (if rx_ignoreCase R \<and> list_ex (\<lambda>c. 0x80 \<le> c) s then Inl OutsideModel
      else if rx_unicode R \<and> list_ex isSurrogate s then Inl OutsideModel
      else Inr (assemble s (\<lambda>(i, e, cs). f (take (e - i) (drop i s)) (captureTexts s (rx_groups R) cs) i)
                  (regexMatches R s) 0))"

text \<open>\<^verbatim>\<open>str.replace(regexp, template)\<close>.\<close>

definition js_replace_regexp :: "jsstring \<Rightarrow> js_regexp \<Rightarrow> jsstring \<Rightarrow> error + jsstring" where
  "js_replace_regexp s R template =
     js_replace_fn s R (\<lambda>matched caps position. getSubstitution matched s position caps template)"

text \<open>\<^verbatim>\<open>str.replace(searchString, template)\<close>: the first occurrence only.\<close>

definition js_replace_string :: "jsstring \<Rightarrow> jsstring \<Rightarrow> jsstring \<Rightarrow> jsstring" where
  "js_replace_string s search template =
     (case indexOf s search of
        None \<Rightarrow> s
      | Some pos \<Rightarrow> take pos s @ getSubstitution search s pos [] template @ drop (pos + length search) s)"

text \<open>\<^verbatim>\<open>str.match(regexp)\<close> for an expression without the \<^verbatim>\<open>g\<close> flag: the match and its captures, or null.\<close>

definition js_match :: "jsstring \<Rightarrow> js_regexp \<Rightarrow> error + jsstring option list option" where
  "js_match s R =
     (if rx_ignoreCase R \<and> list_ex (\<lambda>c. 0x80 \<le> c) s then Inl OutsideModel
      else if rx_unicode R \<and> list_ex isSurrogate s then Inl OutsideModel
      else if rx_global R then Inl OutsideModel
      else Inr (case regExpExec R s 0 of
                  None \<Rightarrow> None
                | Some (i, e, cs) \<Rightarrow> Some (Some (take (e - i) (drop i s)) # captureTexts s (rx_groups R) cs)))"

definition bind :: "error + 'a \<Rightarrow> ('a \<Rightarrow> error + 'b) \<Rightarrow> error + 'b" where
  "bind r f = (case r of Inl e \<Rightarrow> Inl e | Inr x \<Rightarrow> f x)"

subsection \<open>lodash: string functions\<close>

definition regExpChars :: "code_unit list" where
  "regExpChars = 0x5C # js ''^$.*+?()[]{}|''"

definition escapeRegExp :: "jsstring \<Rightarrow> jsstring" where
  "escapeRegExp s = concat (map (\<lambda>c. if c \<in> set regExpChars then [0x5C, c] else [c]) s)"

text \<open>
  \<^verbatim>\<open>stringToArray\<close> splits a string into code units, unless \<^verbatim>\<open>hasUnicode\<close> finds a surrogate, a
  combining mark, a variation selector or a zero-width joiner: then it splits into symbols
  with a regular expression of lodash, which is the parameter \<open>unicodeToArray\<close> here.
\<close>

definition hasUnicode :: "jsstring \<Rightarrow> bool" where
  "hasUnicode s = list_ex (inRanges [(0x200D, 0x200D), (0xD800, 0xDFFF), (0x0300, 0x036F),
                                     (0xFE20, 0xFE2F), (0x20D0, 0x20FF), (0xFE0E, 0xFE0F)]) s"

definition stringToArray :: "(jsstring \<Rightarrow> jsstring list) \<Rightarrow> jsstring \<Rightarrow> jsstring list" where
  "stringToArray unicodeToArray s = (if hasUnicode s then unicodeToArray s else map (\<lambda>c. [c]) s)"

definition charsStartIndex :: "jsstring list \<Rightarrow> jsstring list \<Rightarrow> nat" where
  "charsStartIndex strSymbols chrSymbols = length (takeWhile (\<lambda>x. x \<in> set chrSymbols) strSymbols)"

definition charsEndIndex :: "jsstring list \<Rightarrow> jsstring list \<Rightarrow> int" where
  "charsEndIndex strSymbols chrSymbols =
     int (length strSymbols) - int (length (takeWhile (\<lambda>x. x \<in> set chrSymbols) (rev strSymbols))) - 1"

definition castSlice :: "jsstring list \<Rightarrow> nat \<Rightarrow> nat \<Rightarrow> jsstring list" where
  "castSlice array start end_ix = take (end_ix - start) (drop start array)"

definition lodash_trim :: "(jsstring \<Rightarrow> jsstring list) \<Rightarrow> jsstring \<Rightarrow> jsstring \<Rightarrow> jsstring" where
  "lodash_trim u string chars =
     (if string = [] \<or> chars = [] then string
      else
        (let strSymbols = stringToArray u string;
             chrSymbols = stringToArray u chars;
             start = charsStartIndex strSymbols chrSymbols;
             end_ix = nat (charsEndIndex strSymbols chrSymbols + 1)
         in concat (castSlice strSymbols start end_ix)))"

definition lodash_trimStart :: "(jsstring \<Rightarrow> jsstring list) \<Rightarrow> jsstring \<Rightarrow> jsstring \<Rightarrow> jsstring" where
  "lodash_trimStart u string chars =
     (if string = [] \<or> chars = [] then string
      else
        (let strSymbols = stringToArray u string;
             start = charsStartIndex strSymbols (stringToArray u chars)
         in concat (castSlice strSymbols start (length strSymbols))))"

definition lodash_trimEnd :: "(jsstring \<Rightarrow> jsstring list) \<Rightarrow> jsstring \<Rightarrow> jsstring \<Rightarrow> jsstring" where
  "lodash_trimEnd u string chars =
     (if string = [] \<or> chars = [] then string
      else
        (let strSymbols = stringToArray u string;
             end_ix = nat (charsEndIndex strSymbols (stringToArray u chars) + 1)
         in concat (castSlice strSymbols 0 end_ix)))"

subsection \<open>The helper functions of the node\<close>

definition replaceAll :: "jsstring \<Rightarrow> jsstring \<Rightarrow> jsstring \<Rightarrow> error + jsstring" where
  "replaceAll str substr newSubstr =
     bind (new_RegExp (escapeRegExp substr) (js ''g'')) (\<lambda>R. js_replace_regexp str R newSubstr)"

definition charsTrimStart :: "jsstring \<Rightarrow> jsstring \<Rightarrow> error + jsstring" where
  "charsTrimStart str chars =
     (if chars = js '' '' then Inr (js_trimStart str)
      else bind (new_RegExp (js ''^('' @ escapeRegExp chars @ js '')+'') (js ''g''))
                (\<lambda>R. js_replace_regexp str R []))"

definition charsTrimEnd :: "jsstring \<Rightarrow> jsstring \<Rightarrow> error + jsstring" where
  "charsTrimEnd str chars =
     (if chars = js '' '' then Inr (js_trimEnd str)
      else bind (new_RegExp (js ''('' @ escapeRegExp chars @ js '')+$'') (js ''g''))
                (\<lambda>R. js_replace_regexp str R []))"

definition charsTrim :: "jsstring \<Rightarrow> jsstring \<Rightarrow> error + jsstring" where
  "charsTrim str chars =
     (if chars = js '' '' then Inr (js_trim str)
      else bind (new_RegExp (js ''^('' @ escapeRegExp chars @ js '')+|('' @ escapeRegExp chars @ js '')+$'') (js ''g''))
                (\<lambda>R. js_replace_regexp str R []))"

text \<open>
  The regular expression literal of \<^verbatim>\<open>unescapeEscapedCharacters\<close>; \<open>0x5C\<close> is the backslash,
  \<open>0x27\<close> and \<open>0x22\<close> the two quotes.
\<close>

definition unescapePattern :: jsstring where
  "unescapePattern =
     js ''('' @ [0x5C, 0x5C] @ js ''0|'' @ [0x5C, 0x5C, 0x5C, 0x27] @ js ''|'' @ [0x5C, 0x5C, 0x5C, 0x22]
     @ js ''|'' @ [0x5C, 0x5C] @ js ''n|'' @ [0x5C, 0x5C] @ js ''r|'' @ [0x5C, 0x5C] @ js ''v|''
     @ [0x5C, 0x5C] @ js ''t|'' @ [0x5C, 0x5C] @ js ''b|'' @ [0x5C, 0x5C] @ js ''f)|''
     @ [0x5C, 0x5C] @ js ''u(['' @ [0x5C] @ js ''da-fA-F]{4})|''
     @ [0x5C, 0x5C] @ js ''x(['' @ [0x5C] @ js ''da-fA-F]{2})|''
     @ [0x5C, 0x5C] @ js ''u{(0*(?:10|['' @ [0x5C] @ js ''da-fA-F])?['' @ [0x5C] @ js ''da-fA-F]{1,4})}|''
     @ [0x5C, 0x5C] @ js ''(.)''"

definition escapeCharacters :: "jsstring \<Rightarrow> jsstring" where
  "escapeCharacters k =
     (if k = 0x5C # js ''0'' then [0x00]
      else if k = [0x5C, 0x27] then [0x27]
      else if k = [0x5C, 0x22] then [0x22]
      else if k = [0x5C, 0x5C] then [0x5C]
      else if k = 0x5C # js ''n'' then [0x0A]
      else if k = 0x5C # js ''r'' then [0x0D]
      else if k = 0x5C # js ''v'' then [0x0B]
      else if k = 0x5C # js ''t'' then [0x09]
      else if k = 0x5C # js ''b'' then [0x08]
      else if k = 0x5C # js ''f'' then [0x0C]
      else js ''undefined'')"

text \<open>The replacer: \<^verbatim>\<open>String.fromCharCode\<close> keeps the low 16 bits of the parsed number.\<close>

definition unescapeReplacer :: "jsstring \<Rightarrow> jsstring option list \<Rightarrow> nat \<Rightarrow> jsstring" where
  "unescapeReplacer matched caps position =
     (let escapeCharacter = caps ! 0; unicodeCharacter = caps ! 1; unicodeShortCharacter = caps ! 2;
          unicodeBracesCharacter = caps ! 3; anyCharacter = caps ! 4
      in if escapeCharacter \<noteq> None \<and> escapeCharacter \<noteq> Some [] then escapeCharacters (fromOption escapeCharacter)
         else if anyCharacter \<noteq> None \<and> anyCharacter \<noteq> Some [] then fromOption anyCharacter
         else [of_nat (parseHex (fromOption
                 (case unicodeCharacter of Some x \<Rightarrow> Some x
                  | None \<Rightarrow> (case unicodeShortCharacter of Some x \<Rightarrow> Some x | None \<Rightarrow> unicodeBracesCharacter))))])"

definition unescapeEscapedCharacters :: "jsstring \<Rightarrow> error + jsstring" where
  "unescapeEscapedCharacters str =
     bind (new_RegExp unescapePattern (js ''g'')) (\<lambda>R. js_replace_fn str R unescapeReplacer)"

definition buildRegexGroup :: "jsstring \<Rightarrow> int \<Rightarrow> int \<Rightarrow> error + jsstring" where
  "buildRegexGroup base min_count max_count =
     (if min_count \<noteq> 0 then
        (if max_count \<noteq> 0
         then bind (numberToString min_count)
                (\<lambda>lo. bind (numberToString max_count)
                   (\<lambda>hi. Inr (base @ js ''{'' @ lo @ js '','' @ hi @ js ''}'')))
         else bind (numberToString min_count) (\<lambda>lo. Inr (base @ js ''{'' @ lo @ js '',}'')))
      else if max_count \<noteq> 0 then bind (numberToString max_count) (\<lambda>hi. Inr (base @ js ''{'' @ hi @ js ''}''))
      else Inr (base @ js ''*''))"

subsection \<open>External libraries\<close>

text \<open>
  What the node imports and does not define is a parameter of the embedding:
  \<^item> \<open>ext name args\<close>: a named string function of JavaScript, lodash or \<^verbatim>\<open>entities\<close>
    (\<^verbatim>\<open>decodeURI\<close>, \<^verbatim>\<open>entities.decodeXML\<close>, \<^verbatim>\<open>camelCase\<close>, \<^verbatim>\<open>toUpperCase\<close>, \<^verbatim>\<open>normalize\<close>, ...)
    applied to the text and its further arguments;
  \<^item> \<open>unicodeToArray\<close>: lodash's splitting of a string with astral or combining symbols;
  \<^item> \<open>iconv_decoder\<close>, \<open>iconv_encoder\<close>: the codecs of iconv-lite, given the encoding name and
    the one option each direction reads;
  \<^item> \<open>buffer_from\<close>, \<open>buffer_toString\<close>: \<^verbatim>\<open>Buffer.from(string, encoding)\<close> and \<^verbatim>\<open>toString()\<close>;
  \<^item> \<open>stripHtml\<close>: string-strip-html with the callback of the node, given the text, the flag
    \<^verbatim>\<open>stripRecognisedHTMLOnly\<close> and the value put in place of each tag;
  \<^item> \<open>prepareBinaryData\<close>: the helper of n8n that builds a binary attachment;
  \<^item> \<open>stringToPath\<close>: lodash's parsing of a property path that has brackets;
  \<^item> \<open>objectToString\<close>: \<^verbatim>\<open>toString()\<close> of an object or array, given its own properties.
\<close>

record binary_data =
  bin_data :: jsstring
  bin_mimeType :: jsstring
  bin_fileName :: jsstring

datatype val = Undefined | Null | Bool bool | Num int | Str jsstring | Ref nat

record libs =
  ext :: "string \<Rightarrow> jsstring list \<Rightarrow> error + jsstring"
  unicodeToArray :: "jsstring \<Rightarrow> jsstring list"
  iconv_decoder :: "string \<Rightarrow> bool option \<Rightarrow> byte list \<Rightarrow> error + jsstring"
  iconv_encoder :: "string \<Rightarrow> bool option \<Rightarrow> jsstring \<Rightarrow> error + byte list"
  buffer_from :: "jsstring \<Rightarrow> string \<Rightarrow> byte list"
  buffer_toString :: "byte list \<Rightarrow> jsstring"
  stripHtml :: "jsstring \<Rightarrow> bool \<Rightarrow> jsstring \<Rightarrow> jsstring"
  prepareBinaryData :: "byte list \<Rightarrow> jsstring \<Rightarrow> jsstring \<Rightarrow> binary_data"
  stringToPath :: "jsstring \<Rightarrow> jsstring list"
  objectToString :: "(jsstring \<times> val) list \<Rightarrow> jsstring"

text \<open>
  The options object passed to iconv-lite. \<^verbatim>\<open>iconv.decode\<close> reads its member \<^verbatim>\<open>stripBOM\<close>,
  \<^verbatim>\<open>iconv.encode\<close> its member \<^verbatim>\<open>addBOM\<close>; a member that the caller did not set is \<open>None\<close>.
\<close>

record iconv_options =
  opt_addBOM :: "bool option"
  opt_stripBOM :: "bool option"

definition iconv_decode :: "libs \<Rightarrow> byte list \<Rightarrow> string \<Rightarrow> iconv_options \<Rightarrow> error + jsstring" where
  "iconv_decode L buf encoding options = iconv_decoder L encoding (opt_stripBOM options) buf"

definition iconv_encode :: "libs \<Rightarrow> jsstring \<Rightarrow> string \<Rightarrow> iconv_options \<Rightarrow> error + byte list" where
  "iconv_encode L str encoding options = iconv_encoder L encoding (opt_addBOM options) str"

subsection \<open>Manipulations\<close>

text \<open>
  One record per action, with the parameters the action reads, under their names in the
  source (\<open>replaceValue\<close> is \<^verbatim>\<open>value\<close>, \<open>replaceAllFlag\<close> is \<^verbatim>\<open>replaceAll\<close>, \<open>endMode\<close> is \<^verbatim>\<open>end\<close>).
  Options are strings, as in the source, so that a value outside the offered ones can be
  written. A number that the source compares with null is optional.
\<close>

record concat_params =
  before :: "jsstring option"
  after :: "jsstring option"

record decodeEncode_params =
  decodeWith :: string
  encodeWith :: string
  addBOM :: bool
  stripBOM :: bool

record entities_params =
  decodeWithEntities :: string
  encodeWithEntities :: string
  entitiesDecodeMode :: string
  entitiesEncodeMode :: string

record letterCase_params =
  caseType :: string
  language :: jsstring

record replace_params =
  replaceMode :: string
  substring :: jsstring
  replaceValue :: jsstring
  replaceAllFlag :: bool
  extended :: bool
  regex :: jsstring
  pattern :: jsstring
  predefinedRule :: string
  onlyRecognisedHTML :: bool
  newline :: bool
  newlineMin :: int
  newlineMax :: int
  number :: bool
  numberMin :: int
  numberMax :: int
  alpha :: bool
  alphaMin :: int
  alphaMax :: int
  whitespace :: bool
  whitespaceMin :: int
  whitespaceMax :: int

record trim_params =
  trim :: string
  trimString :: jsstring
  trimStringUnit :: bool

record pad_params =
  pad :: string
  targetLength :: "int option"
  padString :: jsstring

record substring_params =
  startPosition :: int
  endMode :: string
  endPosition :: int
  endLength :: "int option"

datatype manipulation =
    Concat concat_params
  | DecodeEncode decodeEncode_params
  | DecodeEncodeEntities entities_params
  | LetterCase letterCase_params
  | Normalize string
  | Replace replace_params
  | Trim trim_params
  | Pad pad_params
  | Substring substring_params
  | Repeat "int option"
  | OtherAction string

fun mapE :: "('a \<Rightarrow> error + 'b) \<Rightarrow> 'a list \<Rightarrow> error + 'b list" where
  "mapE f [] = Inr []"
| "mapE f (x # xs) = bind (f x) (\<lambda>y. bind (mapE f xs) (\<lambda>ys. Inr (y # ys)))"

definition concat_action :: "concat_params \<Rightarrow> jsstring \<Rightarrow> jsstring" where
  "concat_action p text = fromOption (before p) @ text @ fromOption (after p)"

definition decodeEncode :: "libs \<Rightarrow> decodeEncode_params \<Rightarrow> jsstring \<Rightarrow> error + jsstring" where
  "decodeEncode L p text =
     (if encodeWith p \<noteq> decodeWith p then
        bind (iconv_decode L (buffer_from L text ''utf8'') (decodeWith p)
                \<lparr>opt_addBOM = Some (addBOM p), opt_stripBOM = None\<rparr>)
          (\<lambda>decoded. bind (iconv_encode L decoded (encodeWith p)
                             \<lparr>opt_addBOM = None, opt_stripBOM = Some (stripBOM p)\<rparr>)
             (\<lambda>buf. Inr (buffer_toString L buf)))
      else Inr text)"

definition decodeEntities :: "libs \<Rightarrow> nat \<Rightarrow> entities_params \<Rightarrow> jsstring \<Rightarrow> error + jsstring" where
  "decodeEntities L itemIndex p text =
     (if decodeWithEntities p = ''url'' then ext L ''decodeURI'' [text]
      else if decodeWithEntities p = ''urlComponent'' then ext L ''decodeURIComponent'' [text]
      else if decodeWithEntities p = ''xml'' then
        (if entitiesDecodeMode p = ''legacy'' then ext L ''entities.decodeXML'' [text]
         else if entitiesDecodeMode p = ''strict'' then ext L ''entities.decodeXMLStrict'' [text]
         else Inl (NodeOperationError ''legacy or strict are valid options'' itemIndex))
      else if decodeWithEntities p = ''html'' then
        (if entitiesDecodeMode p = ''legacy'' then ext L ''entities.decodeHTML'' [text]
         else if entitiesDecodeMode p = ''strict'' then ext L ''entities.decodeHTMLStrict'' [text]
         else Inl (NodeOperationError ''legacy or strict are valid options'' itemIndex))
      else if decodeWithEntities p = ''nothing'' then Inr text
      else Inl (NodeOperationError ''url, xml, html or nothing are valid options'' itemIndex))"

definition encodeEntities :: "libs \<Rightarrow> nat \<Rightarrow> entities_params \<Rightarrow> jsstring \<Rightarrow> error + jsstring" where
  "encodeEntities L itemIndex p text =
     (if encodeWithEntities p = ''url'' then ext L ''encodeURI'' [text]
      else if encodeWithEntities p = ''urlComponent'' then ext L ''encodeURIComponent'' [text]
      else if encodeWithEntities p = ''xml'' then
        (if entitiesEncodeMode p = ''extensive'' then ext L ''entities.encodeXML'' [text]
         else if entitiesEncodeMode p = ''utf8'' then ext L ''entities.escapeUTF8'' [text]
         else if entitiesEncodeMode p = ''nonAscii'' then ext L ''entities.encodeXML'' [text]
         else Inl (NodeOperationError ''extensive, utf8 or nonAscii are valid options'' itemIndex))
      else if encodeWithEntities p = ''html'' then
        (if entitiesEncodeMode p = ''extensive'' then ext L ''entities.encodeHTML'' [text]
         else if entitiesEncodeMode p = ''utf8'' then ext L ''entities.escapeUTF8'' [text]
         else if entitiesEncodeMode p = ''nonAscii'' then ext L ''entities.encodeNonAsciiHTML'' [text]
         else Inl (NodeOperationError ''extensive, utf8 or nonAscii are valid options'' itemIndex))
      else if encodeWithEntities p = ''nothing'' then Inr text
      else Inl (NodeOperationError ''url, xml, html or nothing are valid options'' itemIndex))"

definition decodeEncodeEntities :: "libs \<Rightarrow> nat \<Rightarrow> entities_params \<Rightarrow> jsstring \<Rightarrow> error + jsstring" where
  "decodeEncodeEntities L itemIndex p text =
     (if encodeWithEntities p \<noteq> decodeWithEntities p
      then bind (decodeEntities L itemIndex p text) (encodeEntities L itemIndex p)
      else Inr text)"

definition letterCase :: "libs \<Rightarrow> nat \<Rightarrow> letterCase_params \<Rightarrow> jsstring \<Rightarrow> error + jsstring" where
  "letterCase L itemIndex p text =
     (if caseType p = ''camelCase'' then ext L ''camelCase'' [text]
      else if caseType p = ''capitalize'' then ext L ''capitalize'' [text]
      else if caseType p = ''titlecase'' then
        bind (mapE (\<lambda>w. ext L ''capitalize'' [w]) (js_split 0x20 text)) (\<lambda>ws. Inr (js_join (js '' '') ws))
      else if caseType p = ''kebabCase'' then ext L ''kebabCase'' [text]
      else if caseType p = ''snakeCase'' then ext L ''snakeCase'' [text]
      else if caseType p = ''startCase'' then ext L ''startCase'' [text]
      else if caseType p = ''upperCase'' then ext L ''toUpperCase'' [text]
      else if caseType p = ''lowerCase'' then ext L ''toLowerCase'' [text]
      else if caseType p = ''localeUpperCase'' then ext L ''toLocaleUpperCase'' [text, language p]
      else if caseType p = ''localeLowerCase'' then ext L ''toLocaleLowerCase'' [text, language p]
      else Inl (NodeOperationError
             ''upperCase, lowerCase, capitalize, camelCase, kebabCase or snakeCase are valid options'' itemIndex))"

text \<open>The switch over \<^verbatim>\<open>normalizeForm\<close> has four cases and no default.\<close>

definition normalize :: "libs \<Rightarrow> string \<Rightarrow> jsstring \<Rightarrow> error + jsstring" where
  "normalize L normalizeForm text =
     (if normalizeForm = ''nfc'' then ext L ''normalize'' [text, js ''NFC'']
      else if normalizeForm = ''nfd'' then ext L ''normalize'' [text, js ''NFD'']
      else if normalizeForm = ''nfkc'' then ext L ''normalize'' [text, js ''NFKC'']
      else if normalizeForm = ''nfkd'' then ext L ''normalize'' [text, js ''NFKD'']
      else Inr text)"

definition maybeUnescape :: "bool \<Rightarrow> jsstring \<Rightarrow> error + jsstring" where
  "maybeUnescape ext_flag v = (if ext_flag then unescapeEscapedCharacters v else Inr v)"

definition replaceSubstring :: "replace_params \<Rightarrow> jsstring \<Rightarrow> jsstring \<Rightarrow> error + jsstring" where
  "replaceSubstring p search text =
     bind (maybeUnescape (extended p) (replaceValue p))
       (\<lambda>v. if replaceAllFlag p then replaceAll text search v else Inr (js_replace_string text search v))"

text \<open>
  \<^verbatim>\<open>regexMatch\<close> is the result of matching \<^verbatim>\<open>^/(.*?)/([gimusy]*)$\<close>: null, or the array of the match
  and its two groups.
\<close>

definition regexLiteral :: "jsstring \<Rightarrow> error + jsstring option list option" where
  "regexLiteral r = bind (new_RegExp (js ''^/(.*?)/([gimusy]*)$'') []) (js_match r)"

definition replaceRegex :: "replace_params \<Rightarrow> jsstring \<Rightarrow> error + jsstring" where
  "replaceRegex p text =
     bind (regexLiteral (regex p))
       (\<lambda>regexMatch.
          bind (case regexMatch of
                  None \<Rightarrow> new_RegExp (regex p) []
                | Some m \<Rightarrow>
                    if length m = 1 then new_RegExp (fromOption (m ! 1)) []
                    else new_RegExp (fromOption (m ! 1)) (fromOption (m ! 2)))
            (\<lambda>R. bind (maybeUnescape (extended p) (pattern p)) (js_replace_regexp text R)))"

text \<open>\<^verbatim>\<open>if (enabled) groups.push(buildRegexGroup(...))\<close>.\<close>

definition pushGroup :: "bool \<Rightarrow> jsstring \<Rightarrow> int \<Rightarrow> int \<Rightarrow> jsstring list \<Rightarrow> error + jsstring list" where
  "pushGroup enabled base min_count max_count groups =
     (if enabled then bind (buildRegexGroup base min_count max_count) (\<lambda>g. Inr (groups @ [g]))
      else Inr groups)"

definition characterGroups :: "replace_params \<Rightarrow> error + jsstring list" where
  "characterGroups p =
     bind (pushGroup (newline p) (js ''('' @ [0x5C] @ js ''r'' @ [0x5C] @ js ''n|'' @ [0x5C] @ js ''r|'' @ [0x5C] @ js ''n)'')
             (newlineMin p) (newlineMax p) [])
       (\<lambda>g1. bind (pushGroup (number p) ([0x5C] @ js ''d'') (numberMin p) (numberMax p) g1)
          (\<lambda>g2. bind (pushGroup (alpha p) (js ''[a-zA-Z]'') (alphaMin p) (alphaMax p) g2)
             (\<lambda>g3. pushGroup (whitespace p) ([0x5C] @ js ''s'') (whitespaceMin p) (whitespaceMax p) g3)))"

definition replacePredefined :: "libs \<Rightarrow> nat \<Rightarrow> replace_params \<Rightarrow> jsstring \<Rightarrow> error + jsstring" where
  "replacePredefined L itemIndex p text =
     (if predefinedRule p = ''tags'' then
        bind (maybeUnescape (extended p) (replaceValue p))
          (\<lambda>v. Inr (stripHtml L text (onlyRecognisedHTML p) v))
      else if predefinedRule p = ''characterGroups'' then
        bind (characterGroups p)
          (\<lambda>groups. bind (new_RegExp (js_join (js ''|'') groups) (js ''g''))
             (\<lambda>R. bind (maybeUnescape (extended p) (replaceValue p)) (js_replace_regexp text R)))
      else Inl (NodeOperationError ''tags or characterGroups are valid options'' itemIndex))"

definition replace_action :: "libs \<Rightarrow> nat \<Rightarrow> replace_params \<Rightarrow> jsstring \<Rightarrow> error + jsstring" where
  "replace_action L itemIndex p text =
     (if replaceMode p = ''substring'' then replaceSubstring p (substring p) text
      else if replaceMode p = ''extendedSubstring'' then
        bind (unescapeEscapedCharacters (substring p)) (\<lambda>search. replaceSubstring p search text)
      else if replaceMode p = ''regex'' then replaceRegex p text
      else if replaceMode p = ''predefinedRule'' then replacePredefined L itemIndex p text
      else Inl (NodeOperationError
             ''substring, extendedSubstring, regex or predefinedRule are valid options'' itemIndex))"

definition trim_action :: "libs \<Rightarrow> nat \<Rightarrow> trim_params \<Rightarrow> jsstring \<Rightarrow> error + jsstring" where
  "trim_action L itemIndex p text =
     (if trim p = ''trimBoth'' then
        (if trimStringUnit p then charsTrim text (trimString p)
         else Inr (lodash_trim (unicodeToArray L) text (trimString p)))
      else if trim p = ''trimStart'' then
        (if trimStringUnit p then charsTrimStart text (trimString p)
         else Inr (lodash_trimStart (unicodeToArray L) text (trimString p)))
      else if trim p = ''trimEnd'' then
        (if trimStringUnit p then charsTrimEnd text (trimString p)
         else Inr (lodash_trimEnd (unicodeToArray L) text (trimString p)))
      else Inl (NodeOperationError ''trimBoth, trimStart or trimEnd are valid options'' itemIndex))"

definition pad_action :: "nat \<Rightarrow> pad_params \<Rightarrow> jsstring \<Rightarrow> error + jsstring" where
  "pad_action itemIndex p text =
     (case targetLength p of
        None \<Rightarrow> Inl (NodeOperationError ''The Target Length has to be set to at least 0 or higher!'' itemIndex)
      | Some n \<Rightarrow>
          if n < 0 then Inl (NodeOperationError ''The Target Length has to be set to at least 0 or higher!'' itemIndex)
          else if pad p = ''padStart'' then Inr (js_padStart text n (padString p))
          else if pad p = ''padEnd'' then Inr (js_padEnd text n (padString p))
          else Inl (NodeOperationError ''padStart or padEnd are valid options'' itemIndex))"

definition substring_action :: "nat \<Rightarrow> substring_params \<Rightarrow> jsstring \<Rightarrow> error + jsstring" where
  "substring_action itemIndex p text =
     (if endMode p = ''complete'' then Inr (js_substring text (startPosition p) None)
      else if endMode p = ''position'' then Inr (js_substring text (startPosition p) (Some (endPosition p)))
      else if endMode p = ''length'' then
        (case endLength p of
           None \<Rightarrow> Inl (NodeOperationError ''The Length has to be set to at least 0 or higher!'' itemIndex)
         | Some n \<Rightarrow>
             if n < 0 then Inl (NodeOperationError ''The Length has to be set to at least 0 or higher!'' itemIndex)
             else if startPosition p < 0
             then Inr (js_substring text (startPosition p) (Some (int (length text) + startPosition p + n)))
             else Inr (js_substring text (startPosition p) (Some (startPosition p + n))))
      else Inl (NodeOperationError ''complete, position or length are valid options'' itemIndex))"

definition repeat_action :: "nat \<Rightarrow> int option \<Rightarrow> jsstring \<Rightarrow> error + jsstring" where
  "repeat_action itemIndex times_opt text =
     (case times_opt of
        None \<Rightarrow> Inl (NodeOperationError ''The Times has to be set to at least 0 or higher!'' itemIndex)
      | Some n \<Rightarrow>
          if n < 0 then Inl (NodeOperationError ''The Times has to be set to at least 0 or higher!'' itemIndex)
          else Inr (js_repeat text n))"

text \<open>The switch over \<^verbatim>\<open>manipulation.action\<close>.\<close>

fun manipulate :: "libs \<Rightarrow> nat \<Rightarrow> manipulation \<Rightarrow> jsstring \<Rightarrow> error + jsstring" where
  "manipulate L itemIndex (Concat p) text = Inr (concat_action p text)"
| "manipulate L itemIndex (DecodeEncode p) text = decodeEncode L p text"
| "manipulate L itemIndex (DecodeEncodeEntities p) text = decodeEncodeEntities L itemIndex p text"
| "manipulate L itemIndex (LetterCase p) text = letterCase L itemIndex p text"
| "manipulate L itemIndex (Normalize f) text = normalize L f text"
| "manipulate L itemIndex (Replace p) text = replace_action L itemIndex p text"
| "manipulate L itemIndex (Trim p) text = trim_action L itemIndex p text"
| "manipulate L itemIndex (Pad p) text = pad_action itemIndex p text"
| "manipulate L itemIndex (Substring p) text = substring_action itemIndex p text"
| "manipulate L itemIndex (Repeat n) text = repeat_action itemIndex n text"
| "manipulate L itemIndex (OtherAction a) text =
     Inl (NodeOperationError ''decodeEncode, replace, trim, pad, substring or repeat are valid options'' itemIndex)"

text \<open>The loop over the manipulations of a text group: the first error ends it.\<close>

fun manipulateAll :: "libs \<Rightarrow> nat \<Rightarrow> manipulation list \<Rightarrow> jsstring \<Rightarrow> error + jsstring" where
  "manipulateAll L itemIndex [] text = Inr text"
| "manipulateAll L itemIndex (m # ms) text =
     bind (manipulate L itemIndex m text) (manipulateAll L itemIndex ms)"

subsection \<open>The store\<close>

text \<open>
  \<^verbatim>\<open>execute\<close> works on objects that it shares with its caller: the input items. Objects live
  in a store, a list of cells; an address is an index, and a new object is appended. A
  cell is a JSON object (its own properties, in order; an array is the object of its
  indices) or a map of binary attachments (\<^verbatim>\<open>IBinaryKeyData\<close>). An attachment itself
  (\<^verbatim>\<open>IBinaryData\<close>) is a value: the node reads its \<^verbatim>\<open>data\<close> and never writes to one.
\<close>

datatype cell = JObj "(jsstring \<times> val) list" | BinMap "(jsstring \<times> binary_data) list"

type_synonym heap = "cell list"

definition props :: "heap \<Rightarrow> nat \<Rightarrow> (jsstring \<times> val) list option" where
  "props h a = (if a < length h then (case h ! a of JObj ps \<Rightarrow> Some ps | BinMap _ \<Rightarrow> None) else None)"

definition entries :: "heap \<Rightarrow> nat \<Rightarrow> (jsstring \<times> binary_data) list" where
  "entries h a = (if a < length h then (case h ! a of BinMap es \<Rightarrow> es | JObj _ \<Rightarrow> []) else [])"

definition getProp :: "(jsstring \<times> 'v) list \<Rightarrow> jsstring \<Rightarrow> 'v option" where
  "getProp ps k = map_of ps k"

fun setProp :: "(jsstring \<times> 'v) list \<Rightarrow> jsstring \<Rightarrow> 'v \<Rightarrow> (jsstring \<times> 'v) list" where
  "setProp [] k v = [(k, v)]"
| "setProp ((k', v') # ps) k v = (if k' = k then (k, v) # ps else (k', v') # setProp ps k v)"

definition valOf :: "val option \<Rightarrow> val" where
  "valOf x = (case x of None \<Rightarrow> Undefined | Some v \<Rightarrow> v)"

text \<open>\<^verbatim>\<open>object[key] = value\<close> on a JSON object and on a map of attachments.\<close>

definition assignValue :: "heap \<Rightarrow> nat \<Rightarrow> jsstring \<Rightarrow> val \<Rightarrow> heap" where
  "assignValue h a k v = (case props h a of Some ps \<Rightarrow> h[a := JObj (setProp ps k v)] | None \<Rightarrow> h)"

definition assignBinary :: "heap \<Rightarrow> nat \<Rightarrow> jsstring \<Rightarrow> binary_data \<Rightarrow> heap" where
  "assignBinary h a k v =
     (if a < length h then (case h ! a of BinMap es \<Rightarrow> h[a := BinMap (setProp es k v)] | JObj _ \<Rightarrow> h) else h)"

text \<open>\<^verbatim>\<open>Object.assign(target, source)\<close> on maps of attachments.\<close>

definition objectAssign :: "heap \<Rightarrow> nat \<Rightarrow> nat \<Rightarrow> heap" where
  "objectAssign h target source = fold (\<lambda>(k, v) h'. assignBinary h' target k v) (entries h source) h"

subsection \<open>lodash: get and set\<close>

text \<open>
  \<^verbatim>\<open>castPath\<close>: a string that is a key of the object is that key; otherwise a path without
  brackets is split at its dots.
\<close>

definition castPath :: "libs \<Rightarrow> jsstring \<Rightarrow> (jsstring \<times> val) list \<Rightarrow> jsstring list" where
  "castPath L path ps =
     (if path \<in> fst ` set ps then [path]
      else if cu CHR ''['' \<in> set path \<or> cu CHR '']'' \<in> set path then stringToPath L path
      else js_split (cu CHR ''.'') path)"

text \<open>
  What an object or an array has besides the properties of the store: the names of
  \<^verbatim>\<open>Object.prototype\<close>, and \<^verbatim>\<open>length\<close> and the names of \<^verbatim>\<open>Array.prototype\<close> (ECMAScript 2023 with
  Annex B). Reading one gives a function or a length that the store does not have, which
  is outside the model; any other name that is not a property gives \<^verbatim>\<open>undefined\<close>.
\<close>

definition inheritedNames :: "jsstring list" where
  "inheritedNames = map js
     [''constructor'', ''__proto__'', ''__defineGetter__'', ''__defineSetter__'', ''__lookupGetter__'',
      ''__lookupSetter__'', ''hasOwnProperty'', ''isPrototypeOf'', ''propertyIsEnumerable'',
      ''toLocaleString'', ''toString'', ''valueOf'',
      ''length'', ''at'', ''concat'', ''copyWithin'', ''entries'', ''every'', ''fill'', ''filter'', ''find'',
      ''findIndex'', ''findLast'', ''findLastIndex'', ''flat'', ''flatMap'', ''forEach'', ''includes'',
      ''indexOf'', ''join'', ''keys'', ''lastIndexOf'', ''map'', ''pop'', ''push'', ''reduce'', ''reduceRight'',
      ''reverse'', ''shift'', ''slice'', ''some'', ''sort'', ''splice'', ''toReversed'', ''toSorted'',
      ''toSpliced'', ''unshift'', ''values'', ''with'']"

text \<open>
  A property of a string: its length, or the character at an index written in canonical
  form; an index beyond the string gives \<^verbatim>\<open>undefined\<close>. Any other name may be a method of
  \<^verbatim>\<open>String.prototype\<close>, which is outside the model.
\<close>

definition stringProperty :: "jsstring \<Rightarrow> jsstring \<Rightarrow> error + val" where
  "stringProperty s k =
     (if k = js ''length'' then Inr (Num (int (length s)))
      else if k \<noteq> [] \<and> list_all isDigit k \<and> natDigits (decimalValue k) = k
      then (if decimalValue k < length s then Inr (Str [s ! decimalValue k]) else Inr Undefined)
      else Inl OutsideModel)"

text \<open>
  \<^verbatim>\<open>baseGet\<close>: the loop \<^verbatim>\<open>while (object != null && index < length) object = object[path[index++]]\<close>;
  when it stops before the end of the path the result is \<^verbatim>\<open>undefined\<close>. A property of a number
  or of a boolean is a method or \<^verbatim>\<open>undefined\<close>, and is outside the model.
\<close>

fun baseGet :: "heap \<Rightarrow> val \<Rightarrow> jsstring list \<Rightarrow> error + val" where
  "baseGet h v [] = Inr v"
| "baseGet h v (k # ks) =
     (case v of
        Undefined \<Rightarrow> Inr Undefined
      | Null \<Rightarrow> Inr Undefined
      | Ref a \<Rightarrow>
          (case props h a of
             Some ps \<Rightarrow>
               (case getProp ps k of
                  Some w \<Rightarrow> baseGet h w ks
                | None \<Rightarrow> if k \<in> set inheritedNames then Inl OutsideModel else Inr Undefined)
           | None \<Rightarrow> Inl OutsideModel)
      | Str s \<Rightarrow> (case stringProperty s k of Inl e \<Rightarrow> Inl e | Inr w \<Rightarrow> baseGet h w ks)
      | _ \<Rightarrow> Inl OutsideModel)"

definition lodash_get :: "libs \<Rightarrow> heap \<Rightarrow> nat \<Rightarrow> jsstring \<Rightarrow> error + val" where
  "lodash_get L h object path =
     (case props h object of
        None \<Rightarrow> Inl OutsideModel
      | Some ps \<Rightarrow> (let p = castPath L path ps in if p = [] then Inr Undefined else baseGet h (Ref object) p))"

definition unsafeKey :: "jsstring \<Rightarrow> bool" where
  "unsafeKey k = (k = js ''__proto__'' \<or> k = js ''constructor'' \<or> k = js ''prototype'')"

fun baseSet :: "heap \<Rightarrow> nat \<Rightarrow> jsstring list \<Rightarrow> val \<Rightarrow> heap" where
  "baseSet h nested [] v = h"
| "baseSet h nested [k] v = (if unsafeKey k then h else assignValue h nested k v)"
| "baseSet h nested (k # k' # ks) v =
     (if unsafeKey k then h
      else (case props h nested of
              None \<Rightarrow> h
            | Some ps \<Rightarrow>
                (case valOf (getProp ps k) of
                   Ref b \<Rightarrow> baseSet h b (k' # ks) v
                 | _ \<Rightarrow> baseSet (assignValue (h @ [JObj []]) nested k (Ref (length h))) (length h) (k' # ks) v)))"

definition lodash_set :: "libs \<Rightarrow> heap \<Rightarrow> nat \<Rightarrow> jsstring \<Rightarrow> val \<Rightarrow> heap" where
  "lodash_set L h object path v =
     (case props h object of None \<Rightarrow> h | Some ps \<Rightarrow> baseSet h object (castPath L path ps) v)"

subsection \<open>deepCopy of n8n-workflow\<close>

text \<open>
  \<^verbatim>\<open>deepCopy(source, hash)\<close>: a primitive is returned as it is; an object found in \<open>hash\<close> gives
  its clone; otherwise a new object is created, entered in \<open>hash\<close>, and filled with the
  copies of the properties (an array, being the object of its indices here, is copied
  the same way). The first argument bounds the depth of the recursion: no object is
  entered twice, so the number of cells plus one is enough.
\<close>

fun deepCopy :: "nat \<Rightarrow> val \<Rightarrow> (nat \<times> nat) list \<Rightarrow> heap \<Rightarrow> (val \<times> (nat \<times> nat) list \<times> heap) option"
and deepCopyProps :: "nat \<Rightarrow> (jsstring \<times> val) list \<Rightarrow> nat \<Rightarrow> (nat \<times> nat) list \<Rightarrow> heap \<Rightarrow> ((nat \<times> nat) list \<times> heap) option"
where
  "deepCopy fuel (Ref a) hash h =
     (case map_of hash a of
        Some c \<Rightarrow> Some (Ref c, hash, h)
      | None \<Rightarrow>
          (case fuel of
             0 \<Rightarrow> None
           | Suc f \<Rightarrow>
               (case props h a of
                  None \<Rightarrow> None
                | Some ps \<Rightarrow>
                    (case deepCopyProps f ps (length h) ((a, length h) # hash) (h @ [JObj []]) of
                       None \<Rightarrow> None
                     | Some (hash', h') \<Rightarrow> Some (Ref (length h), hash', h')))))"
| "deepCopy fuel Undefined hash h = Some (Undefined, hash, h)"
| "deepCopy fuel Null hash h = Some (Null, hash, h)"
| "deepCopy fuel (Bool b) hash h = Some (Bool b, hash, h)"
| "deepCopy fuel (Num n) hash h = Some (Num n, hash, h)"
| "deepCopy fuel (Str s) hash h = Some (Str s, hash, h)"
| "deepCopyProps fuel [] clone hash h = Some (hash, h)"
| "deepCopyProps fuel ((k, v) # ps) clone hash h =
     (case deepCopy fuel v hash h of
        None \<Rightarrow> None
      | Some (v', hash', h') \<Rightarrow> deepCopyProps fuel ps clone hash' (assignValue h' clone k v'))"

subsection \<open>Items, data sources and text groups\<close>

record item =
  json :: nat
  binary :: "nat option"

record out_item =
  out_json :: nat
  out_binary :: "nat option"
  pairedItem :: nat

text \<open>\<open>sourceText\<close> is the parameter \<^verbatim>\<open>text\<close> of a data source.\<close>

record data_source =
  readOperation :: string
  binaryPropertyName :: jsstring
  fileDecodeWith :: string
  fileStripBOM :: bool
  getManipulatedData :: bool
  sourceKey :: jsstring
  skipNonString :: bool
  sourceText :: jsstring
  writeOperation :: string
  destinationBinaryPropertyName :: jsstring
  fileEncodeWith :: string
  fileAddBOM :: bool
  fileName :: jsstring
  mimeType :: jsstring
  destinationKey :: jsstring

record text_group =
  dataSources :: "data_source list"
  manipulations :: "manipulation list"

definition decodeFile :: "libs \<Rightarrow> data_source \<Rightarrow> binary_data \<Rightarrow> error + jsstring option" where
  "decodeFile L ds bd =
     bind (iconv_decode L (buffer_from L (bin_data bd) ''base64'') (fileDecodeWith ds)
             \<lparr>opt_addBOM = None, opt_stripBOM = Some (fileStripBOM ds)\<rparr>)
       (\<lambda>t. Inr (Some t))"

definition itemBinary :: "heap \<Rightarrow> item \<Rightarrow> jsstring \<Rightarrow> binary_data option" where
  "itemBinary h it k = (case binary it of None \<Rightarrow> None | Some b \<Rightarrow> getProp (entries h b) k)"

text \<open>Reading gives the text, or \<open>None\<close> where the source says \<^verbatim>\<open>continue\<close>.\<close>

definition readFromFile :: "libs \<Rightarrow> heap \<Rightarrow> item \<Rightarrow> nat \<Rightarrow> data_source \<Rightarrow> error + jsstring option" where
  "readFromFile L h it newItemBinary ds =
     (if getManipulatedData ds then
        (case getProp (entries h newItemBinary) (binaryPropertyName ds) of
           None \<Rightarrow>
             (case itemBinary h it (binaryPropertyName ds) of
                None \<Rightarrow> Inr None
              | Some bd \<Rightarrow> decodeFile L ds bd)
         | Some bd \<Rightarrow> decodeFile L ds bd)
      else
        (case itemBinary h it (binaryPropertyName ds) of
           None \<Rightarrow> Inr None
         | Some bd \<Rightarrow> decodeFile L ds bd))"

definition truthy :: "val \<Rightarrow> bool" where
  "truthy v = (case v of Undefined \<Rightarrow> False | Null \<Rightarrow> False | Bool b \<Rightarrow> b | Num n \<Rightarrow> n \<noteq> 0
               | Str s \<Rightarrow> s \<noteq> [] | Ref a \<Rightarrow> True)"

text \<open>\<^verbatim>\<open>((value as string | null) ?? '').toString()\<close>.\<close>

definition valToString :: "libs \<Rightarrow> heap \<Rightarrow> val \<Rightarrow> error + jsstring" where
  "valToString L h v =
     (case v of Undefined \<Rightarrow> Inr [] | Null \<Rightarrow> Inr []
      | Bool b \<Rightarrow> Inr (if b then js ''true'' else js ''false'')
      | Num n \<Rightarrow> numberToString n | Str s \<Rightarrow> Inr s
      | Ref a \<Rightarrow> Inr (objectToString L (case props h a of None \<Rightarrow> [] | Some ps \<Rightarrow> ps)))"

text \<open>
  \<^verbatim>\<open>(getManipulatedData && get(newItemJson, key)) || get(item.json, key)\<close>: the left operand of \<^verbatim>\<open>||\<close>
  is \<^verbatim>\<open>false\<close> or the value read from the new item, and the right operand is evaluated when
  the left one is not truthy.
\<close>

definition readFromJSON :: "libs \<Rightarrow> heap \<Rightarrow> item \<Rightarrow> nat \<Rightarrow> data_source \<Rightarrow> error + jsstring option" where
  "readFromJSON L h it newItemJson ds =
     bind (if getManipulatedData ds then lodash_get L h newItemJson (sourceKey ds) else Inr (Bool False))
       (\<lambda>left. bind (if truthy left then Inr left else lodash_get L h (json it) (sourceKey ds))
          (\<lambda>v. case v of
                 Str s \<Rightarrow> Inr (Some s)
               | _ \<Rightarrow> if skipNonString ds then Inr None
                      else bind (valToString L h v) (\<lambda>t. Inr (Some t))))"

definition readSource :: "libs \<Rightarrow> nat \<Rightarrow> heap \<Rightarrow> item \<Rightarrow> nat \<Rightarrow> nat \<Rightarrow> data_source \<Rightarrow> error + jsstring option" where
  "readSource L itemIndex h it newItemJson newItemBinary ds =
     (if readOperation ds = ''fromFile'' then readFromFile L h it newItemBinary ds
      else if readOperation ds = ''fromJSON'' then readFromJSON L h it newItemJson ds
      else if readOperation ds = ''fromText'' then Inr (Some (sourceText ds))
      else Inl (NodeOperationError ''fromFile, fromJSON or fromText are valid options'' itemIndex))"

definition writeResult :: "libs \<Rightarrow> nat \<Rightarrow> nat \<Rightarrow> nat \<Rightarrow> data_source \<Rightarrow> jsstring \<Rightarrow> heap \<Rightarrow> error + heap" where
  "writeResult L itemIndex newItemJson newItemBinary ds text h =
     (if writeOperation ds = ''toFile'' then
        bind (iconv_encode L text (fileEncodeWith ds) \<lparr>opt_addBOM = Some (fileAddBOM ds), opt_stripBOM = None\<rparr>)
          (\<lambda>buf. Inr (assignBinary h newItemBinary (destinationBinaryPropertyName ds)
                         (prepareBinaryData L buf (fileName ds) (mimeType ds))))
      else if writeOperation ds = ''toJSON'' then Inr (lodash_set L h newItemJson (destinationKey ds) (Str text))
      else Inl (NodeOperationError ''toFile or toJSON are valid options'' itemIndex))"

subsection \<open>execute\<close>

definition processDataSource ::
  "libs \<Rightarrow> nat \<Rightarrow> item \<Rightarrow> nat \<Rightarrow> nat \<Rightarrow> manipulation list \<Rightarrow> data_source \<Rightarrow> heap \<Rightarrow> error + heap" where
  "processDataSource L itemIndex it newItemJson newItemBinary ms ds h =
     bind (readSource L itemIndex h it newItemJson newItemBinary ds)
       (\<lambda>r. case r of
              None \<Rightarrow> Inr h
            | Some text \<Rightarrow>
                bind (manipulateAll L itemIndex ms text)
                  (\<lambda>t. writeResult L itemIndex newItemJson newItemBinary ds t h))"

fun processDataSources ::
  "libs \<Rightarrow> nat \<Rightarrow> item \<Rightarrow> nat \<Rightarrow> nat \<Rightarrow> manipulation list \<Rightarrow> data_source list \<Rightarrow> heap \<Rightarrow> error + heap" where
  "processDataSources L itemIndex it newItemJson newItemBinary ms [] h = Inr h"
| "processDataSources L itemIndex it newItemJson newItemBinary ms (ds # dss) h =
     bind (processDataSource L itemIndex it newItemJson newItemBinary ms ds h)
       (processDataSources L itemIndex it newItemJson newItemBinary ms dss)"

fun processGroups :: "libs \<Rightarrow> nat \<Rightarrow> item \<Rightarrow> nat \<Rightarrow> nat \<Rightarrow> text_group list \<Rightarrow> heap \<Rightarrow> error + heap" where
  "processGroups L itemIndex it newItemJson newItemBinary [] h = Inr h"
| "processGroups L itemIndex it newItemJson newItemBinary (g # gs) h =
     bind (processDataSources L itemIndex it newItemJson newItemBinary (manipulations g) (dataSources g) h)
       (processGroups L itemIndex it newItemJson newItemBinary gs)"

text \<open>
  The start of the loop body: two new objects; unless \<^verbatim>\<open>keepOnlySet\<close>, the attachments of the
  item are assigned to the new map and \<^verbatim>\<open>newItemJson\<close> becomes the deep copy of \<^verbatim>\<open>item.json\<close>.
\<close>

definition initItem :: "bool \<Rightarrow> item \<Rightarrow> heap \<Rightarrow> error + nat \<times> nat \<times> heap" where
  "initItem keepOnlySet it h =
     (let newItemJson = length h;
          h1 = h @ [JObj []];
          newItemBinary = length h1;
          h2 = h1 @ [BinMap []]
      in if \<not> keepOnlySet then
           (let h3 = (case binary it of None \<Rightarrow> h2 | Some b \<Rightarrow> objectAssign h2 newItemBinary b)
            in case deepCopy (Suc (length h3)) (Ref (json it)) [] h3 of
                 Some (Ref c, hash, h4) \<Rightarrow> Inr (c, newItemBinary, h4)
               | _ \<Rightarrow> Inl OutsideModel)
         else Inr (newItemJson, newItemBinary, h2))"

definition processItem :: "libs \<Rightarrow> nat \<Rightarrow> bool \<Rightarrow> text_group list \<Rightarrow> item \<Rightarrow> heap \<Rightarrow> error + out_item \<times> heap" where
  "processItem L itemIndex keepOnlySet groups it h =
     bind (initItem keepOnlySet it h)
       (\<lambda>(newItemJson, newItemBinary, h1).
          bind (processGroups L itemIndex it newItemJson newItemBinary groups h1)
            (\<lambda>h2. Inr (\<lparr>out_json = newItemJson,
                         out_binary = (if entries h2 newItemBinary = [] then None else Some newItemBinary),
                         pairedItem = itemIndex\<rparr>, h2)))"

text \<open>
  The loop over the items. The parameters are read per item (\<^verbatim>\<open>getNodeParameter(name, itemIndex)\<close>),
  so they are functions of the index. An error leaves \<^verbatim>\<open>execute\<close>.
\<close>

fun executeFrom ::
  "libs \<Rightarrow> (nat \<Rightarrow> bool) \<Rightarrow> (nat \<Rightarrow> text_group list) \<Rightarrow> nat \<Rightarrow> item list \<Rightarrow> heap \<Rightarrow> error + out_item list \<times> heap" where
  "executeFrom L keepOnlySet groups itemIndex [] h = Inr ([], h)"
| "executeFrom L keepOnlySet groups itemIndex (it # its) h =
     bind (processItem L itemIndex (keepOnlySet itemIndex) (groups itemIndex) it h)
       (\<lambda>(out, h1). bind (executeFrom L keepOnlySet groups (Suc itemIndex) its h1)
                      (\<lambda>(outs, h2). Inr (out # outs, h2)))"

definition execute ::
  "libs \<Rightarrow> (nat \<Rightarrow> bool) \<Rightarrow> (nat \<Rightarrow> text_group list) \<Rightarrow> item list \<Rightarrow> heap \<Rightarrow> error + out_item list \<times> heap" where
  "execute L keepOnlySet groups items h = executeFrom L keepOnlySet groups 0 items h"

subsection \<open>Default parameters\<close>

text \<open>The defaults that the description of the node declares for a replace action and a data source.\<close>

definition replace_defaults :: replace_params where
  "replace_defaults =
     \<lparr>replaceMode = ''substring'', substring = [], replaceValue = [], replaceAllFlag = True,
      extended = False, regex = [], pattern = [], predefinedRule = ''tags'',
      onlyRecognisedHTML = False, newline = False, newlineMin = 1, newlineMax = 1,
      number = False, numberMin = 1, numberMax = 1, alpha = False, alphaMin = 1, alphaMax = 1,
      whitespace = False, whitespaceMin = 1, whitespaceMax = 1\<rparr>"

definition source_defaults :: data_source where
  "source_defaults =
     \<lparr>readOperation = ''fromText'', binaryPropertyName = js ''data'', fileDecodeWith = ''utf8'',
      fileStripBOM = True, getManipulatedData = False, sourceKey = js ''data'', skipNonString = True,
      sourceText = [], writeOperation = ''toJSON'', destinationBinaryPropertyName = js ''data'',
      fileEncodeWith = ''utf8'', fileAddBOM = False, fileName = [], mimeType = js ''text/plain'',
      destinationKey = js ''data''\<rparr>"

subsection \<open>Notions used in the statements and proofs\<close>

text \<open>
  An environment in which no library is available: every call of a library fails or
  returns nothing. It closes the examples of theorems that hold for every environment.
\<close>

definition no_libs :: libs where
  "no_libs =
     \<lparr>ext = (\<lambda>name args. Inl (LibraryError name)),
      unicodeToArray = map (\<lambda>c. [c]),
      iconv_decoder = (\<lambda>encoding stripBOM_opt buf. Inl (LibraryError encoding)),
      iconv_encoder = (\<lambda>encoding addBOM_opt str. Inl (LibraryError encoding)),
      buffer_from = (\<lambda>str encoding. []),
      buffer_toString = (\<lambda>buf. []),
      stripHtml = (\<lambda>str recognisedOnly v. str),
      prepareBinaryData = (\<lambda>buf name mime. \<lparr>bin_data = [], bin_mimeType = mime, bin_fileName = name\<rparr>),
      stringToPath = (\<lambda>path. [path]),
      objectToString = (\<lambda>ps. js ''[object Object]'')\<rparr>"

text \<open>
  The form \<^verbatim>\<open>/body/flags\<close> of a configured pattern, in the words of the specification: a
  slash, a body, a slash, and flags drawn from \<^verbatim>\<open>g i m u s y\<close>. The body is on one line (the
  dot of the expression that recognises the form does not match a line terminator).
\<close>

definition literalForm :: "jsstring \<Rightarrow> jsstring \<Rightarrow> jsstring \<Rightarrow> bool" where
  "literalForm r body flags =
     (r = cu CHR ''/'' # body @ cu CHR ''/'' # flags \<and> set flags \<subseteq> set (js ''gimusy'')
      \<and> list_all (\<lambda>c. \<not> isLineTerminator c) body)"

text \<open>The expression \<^verbatim>\<open>^/(.*?)/([gimusy]*)$\<close> as \<open>new_RegExp\<close> parses it, and its parts.\<close>

definition flagSet :: cset where
  "flagSet = COr (CRanges [(103, 103)]) (COr (CRanges [(105, 105)]) (COr (CRanges [(109, 109)])
               (COr (CRanges [(117, 117)]) (COr (CRanges [(115, 115)]) (COr (CRanges [(121, 121)]) (CRanges []))))))"

definition afterBody :: regex where
  "afterBody = RSeq (RChar 47) (RSeq (RGroup 2 (RSeq (RRepeat (RClass False flagSet) 0 None True) REmpty)) (RSeq REol REmpty))"

definition literalAst :: regex where
  "literalAst = RSeq RBol (RSeq (RChar 47) (RSeq (RGroup 1 (RSeq (RRepeat RDot 0 None False) REmpty)) afterBody))"

definition literalRegExp :: js_regexp where
  "literalRegExp = \<lparr>rx_ast = literalAst, rx_groups = 2, rx_global = False, rx_ignoreCase = False,
                     rx_multiline = False, rx_dotAll = False, rx_sticky = False, rx_unicode = False\<rparr>"

definition litEnv :: "jsstring \<Rightarrow> rx_env" where
  "litEnv r = \<lparr>ignoreCase = False, multiline = False, dotAll = False, input = r, budget = length r + 1\<rparr>"

text \<open>At index \<open>q\<close> there is a slash, and only flags follow it.\<close>

definition flagsFrom :: "jsstring \<Rightarrow> nat \<Rightarrow> bool" where
  "flagsFrom r q = (q < length r \<and> r ! q = 47 \<and> list_all (in_cset flagSet) (drop (Suc q) r))"

definition bodyK :: "jsstring \<Rightarrow> mstate \<Rightarrow> mstate option" where
  "bodyK r y = (if flagsFrom r (fst y)
                then Some (length r, (snd y)[0 := Some (Suc 0, fst y), Suc 0 := Some (Suc (fst y), length r)])
                else None)"

text \<open>
  The invariant of the store while an item is processed: the objects created since the
  store had \<open>n\<close> cells refer only to objects created since then.
\<close>

definition ref_above :: "nat \<Rightarrow> val \<Rightarrow> bool" where
  "ref_above n v = (case v of Ref b \<Rightarrow> n \<le> b | _ \<Rightarrow> True)"

definition fresh_closed :: "nat \<Rightarrow> heap \<Rightarrow> bool" where
  "fresh_closed n h = (\<forall>a ps k v. n \<le> a \<longrightarrow> props h a = Some ps \<longrightarrow> (k, v) \<in> set ps \<longrightarrow> ref_above n v)"

definition hash_above :: "nat \<Rightarrow> (nat \<times> nat) list \<Rightarrow> bool" where
  "hash_above n hash = (\<forall>a c. (a, c) \<in> set hash \<longrightarrow> n \<le> c)"

text \<open>
  Trimming as a unit, in the words of the specification: the trim string is one token, and
  it is removed from the start of the text for as long as the text starts with it;
  \<open>stripEnd\<close> is the same at the end of the text.
\<close>

function stripStart :: "jsstring \<Rightarrow> jsstring \<Rightarrow> jsstring" where
  "stripStart t s =
     (if t \<noteq> [] \<and> take (length t) s = t then stripStart t (drop (length t) s) else s)"
  by pat_completeness auto
termination
proof (relation "measure (\<lambda>(t, s). length s)")
  fix t s :: jsstring
  assume a: "t \<noteq> [] \<and> take (length t) s = t"
  then have "length (take (length t) s) = length t" by simp
  then have "length t \<le> length s" by simp
  moreover have "0 < length t" using a by simp
  ultimately have "length s - length t < length s" by arith
  then show "((t, drop (length t) s), (t, s)) \<in> measure (\<lambda>(t, s). length s)" by simp
qed simp

definition stripEnd :: "jsstring \<Rightarrow> jsstring \<Rightarrow> jsstring" where
  "stripEnd t s = rev (stripStart (rev t) (rev s))"

text \<open>The number of copies of the token at the start of a text.\<close>

function tokenCount :: "jsstring \<Rightarrow> jsstring \<Rightarrow> nat" where
  "tokenCount t s =
     (if t \<noteq> [] \<and> take (length t) s = t then Suc (tokenCount t (drop (length t) s)) else 0)"
  by pat_completeness auto
termination
proof (relation "measure (\<lambda>(t, s). length s)")
  fix t s :: jsstring
  assume a: "t \<noteq> [] \<and> take (length t) s = t"
  then have "length (take (length t) s) = length t" by simp
  then have "length t \<le> length s" by simp
  moreover have "0 < length t" using a by simp
  ultimately have "length s - length t < length s" by arith
  then show "((t, drop (length t) s), (t, s)) \<in> measure (\<lambda>(t, s). length s)" by simp
qed simp

text \<open>
  The token is at index \<open>p\<close> of the text; from index \<open>p\<close> to the end of the text there are
  only copies of the token, and at least one.
\<close>

definition tokenAt :: "jsstring \<Rightarrow> jsstring \<Rightarrow> nat \<Rightarrow> bool" where
  "tokenAt t s p = (take (length t) (drop p s) = t)"

definition tailTokens :: "jsstring \<Rightarrow> jsstring \<Rightarrow> nat \<Rightarrow> bool" where
  "tailTokens t s p = (0 < tokenCount t (drop p s) \<and> p + tokenCount t (drop p s) * length t = length s)"

text \<open>
  The expressions \<^verbatim>\<open>^(t)+\<close>, \<^verbatim>\<open>(t)+$\<close> and \<^verbatim>\<open>^(t)+|(t)+$\<close> of \<^verbatim>\<open>charsTrimStart\<close>, \<^verbatim>\<open>charsTrimEnd\<close> and
  \<^verbatim>\<open>charsTrim\<close> as \<open>new_RegExp\<close> parses them: the escaped token is the sequence of its
  characters, in a capturing group that is repeated one or more times.
\<close>

fun lits :: "jsstring \<Rightarrow> regex" where
  "lits [] = REmpty"
| "lits (c # cs) = RSeq (RChar c) (lits cs)"

definition tokenPlus :: "nat \<Rightarrow> jsstring \<Rightarrow> regex" where
  "tokenPlus g t = RRepeat (RGroup g (lits t)) 1 None True"

definition tokenStar :: "nat \<Rightarrow> jsstring \<Rightarrow> regex" where
  "tokenStar g t = RRepeat (RGroup g (lits t)) 0 None True"

definition startAst :: "jsstring \<Rightarrow> regex" where
  "startAst t = RSeq RBol (RSeq (tokenPlus (Suc 0) t) REmpty)"

definition endAst :: "nat \<Rightarrow> jsstring \<Rightarrow> regex" where
  "endAst g t = RSeq (tokenPlus g t) (RSeq REol REmpty)"

definition bothAst :: "jsstring \<Rightarrow> regex" where
  "bothAst t = RAlt (startAst t) (endAst (Suc (Suc 0)) t)"

definition trimRegExp :: "regex \<Rightarrow> nat \<Rightarrow> js_regexp" where
  "trimRegExp a g = \<lparr>rx_ast = a, rx_groups = g, rx_global = True, rx_ignoreCase = False,
                      rx_multiline = False, rx_dotAll = False, rx_sticky = False, rx_unicode = False\<rparr>"

declare natDigits.simps [simp del]
declare rx_match.simps [simp del]
declare stripStart.simps [simp del]
declare tokenCount.simps [simp del]

section \<open>Properties\<close>

subsection \<open>Decode/Encode\<close>

text \<open>
  C1. The claim is that the in-chain Decode/Encode action decodes with the configured
  \<^verbatim>\<open>stripBOM\<close> and encodes with the configured \<^verbatim>\<open>addBOM\<close>. The source passes \<^verbatim>\<open>{addBOM}\<close> to
  \<^verbatim>\<open>iconv.decode\<close> and \<^verbatim>\<open>{stripBOM}\<close> to \<^verbatim>\<open>iconv.encode\<close>: with \<^verbatim>\<open>addBOM = true\<close> and
  \<^verbatim>\<open>stripBOM = false\<close> configured, from utf8 to utf16be, the decoder is given no \<^verbatim>\<open>stripBOM\<close> and
  the encoder no \<^verbatim>\<open>addBOM\<close>, for every text and whatever the codecs are.
\<close>

theorem decodeEncode_options_swapped:
  "manipulate L i (DecodeEncode \<lparr>decodeWith = ''utf8'', encodeWith = ''utf16be'', addBOM = True, stripBOM = False\<rparr>) text
   = bind (iconv_decoder L ''utf8'' None (buffer_from L text ''utf8''))
       (\<lambda>decoded. bind (iconv_encoder L ''utf16be'' None decoded) (\<lambda>buf. Inr (buffer_toString L buf)))"
  by (simp add: decodeEncode_def iconv_decode_def iconv_encode_def)

subsection \<open>Substring\<close>

text \<open>
  C2. The claim is that Substring with start \<open>-3\<close> and length \<open>2\<close> on \<^verbatim>\<open>HelloWorld\<close> gives the same
  as start \<open>7\<close> and end position \<open>9\<close>, namely \<^verbatim>\<open>rl\<close>. The source computes the end bound
  \<open>10 + (-3) + 2 = 9\<close> and calls \<^verbatim>\<open>substring(-3, 9)\<close>, which clamps the negative start to \<open>0\<close>:
  the result is \<^verbatim>\<open>HelloWorl\<close>, while start \<open>7\<close> and end position \<open>9\<close> do give \<^verbatim>\<open>rl\<close>.
\<close>

theorem substring_negative_start_clamped:
  "manipulate L i (Substring \<lparr>startPosition = -3, endMode = ''length'', endPosition = 1, endLength = Some 2\<rparr>)
     (js ''HelloWorld'') = Inr (js ''HelloWorl'')
   \<and> manipulate L i (Substring \<lparr>startPosition = 7, endMode = ''position'', endPosition = 9, endLength = Some 1\<rparr>)
     (js ''HelloWorld'') = Inr (js ''rl'')"
  by (simp add: substring_action_def js_substring_def js_def)

subsection \<open>Normalize\<close>

text \<open>
  C3. The claim is that a Normalize action whose form is none of the four offered ones
  raises an error for the record. The switch of the source has no default case: with the
  form \<^verbatim>\<open>nfx\<close> every text is returned unchanged, and no error is raised.
\<close>

theorem normalize_unknown_form_is_silent:
  "manipulate L i (Normalize ''nfx'') text = Inr text"
  by (simp add: normalize_def)

subsection \<open>Pad\<close>

text \<open>
  C9. Padding \<^verbatim>\<open>ab\<close> at the start to length 5 with a space gives three spaces and \<^verbatim>\<open>ab\<close>. With
  the target length \<open>-1\<close> the action fails with the error about the target length, for every
  text, whatever the pad direction (valid or not) and the fill string are.
\<close>

theorem pad_example_and_negative_target:
  "manipulate L i (Pad \<lparr>pad = ''padStart'', targetLength = Some 5, padString = js '' ''\<rparr>) (js ''ab'')
     = Inr (js ''   ab'')
   \<and> length (js ''   ab'') = 5
   \<and> manipulate L i (Pad \<lparr>pad = direction, targetLength = Some (- 1), padString = fill\<rparr>) text
     = Inl (NodeOperationError ''The Target Length has to be set to at least 0 or higher!'' i)"
  by (simp add: pad_action_def js_padStart_def stringPad_def js_def cu_def numeral_3_eq_3)

subsection \<open>Reading manipulated data\<close>

text \<open>
  C6. The claim is that a data source that reads manipulated data prefers the value already
  written to the new item over the value of the input item. In the source the two are
  joined by \<^verbatim>\<open>||\<close>, so a written value that is the empty string is passed over. The input item
  has \<^verbatim>\<open>data = "x"\<close>; the first data source writes the empty text to \<^verbatim>\<open>data\<close>; the second reads
  \<^verbatim>\<open>data\<close> with \<^verbatim>\<open>getManipulatedData\<close> and writes it to \<^verbatim>\<open>out\<close>. The new item ends with
  \<^verbatim>\<open>data = ""\<close> and \<^verbatim>\<open>out = "x"\<close>.
\<close>

theorem fromJSON_skips_written_empty_string:
  "processItem L 0 False
     [\<lparr>dataSources =
         [source_defaults\<lparr>readOperation := ''fromText'', sourceText := [], destinationKey := js ''data''\<rparr>,
          source_defaults\<lparr>readOperation := ''fromJSON'', getManipulatedData := True,
                          sourceKey := js ''data'', destinationKey := js ''out''\<rparr>],
       manipulations = []\<rparr>]
     \<lparr>json = 0, binary = None\<rparr>
     [JObj [(js ''data'', Str (js ''x''))]]
   = Inr (\<lparr>out_json = 3, out_binary = None, pairedItem = 0\<rparr>,
          [JObj [(js ''data'', Str (js ''x''))], JObj [], BinMap [],
           JObj [(js ''data'', Str []), (js ''out'', Str (js ''x''))]])"
  by code_simp

subsection \<open>Trimming a single space\<close>

lemma drop_takeWhile_rev:
  "take (length xs - length (takeWhile P (rev xs))) xs = rev (dropWhile P (rev xs))"
proof -
  have "rev (dropWhile P (rev xs)) = rev (drop (length (takeWhile P (rev xs))) (rev xs))"
    by (simp add: dropWhile_eq_drop)
  also have "\<dots> = take (length xs - length (takeWhile P (rev xs))) xs"
    by (simp add: rev_drop)
  finally show ?thesis by simp
qed

lemma takeWhile_rev_dropWhile:
  assumes "dropWhile P xs \<noteq> []"
  shows "takeWhile P (rev xs) = takeWhile P (rev (dropWhile P xs))"
proof -
  have "rev xs = rev (dropWhile P xs) @ rev (takeWhile P xs)"
    by (metis rev_append takeWhile_dropWhile_id)
  moreover have "\<exists>x \<in> set (rev (dropWhile P xs)). \<not> P x"
    using assms hd_dropWhile[of P xs] by (metis hd_in_set set_rev)
  ultimately show ?thesis
    by (metis takeWhile_append1)
qed

lemma singleton_symbols:
  "takeWhile (\<lambda>x. x = [a]) (map (\<lambda>c. [c]) xs) = map (\<lambda>c. [c]) (takeWhile (\<lambda>c. c = a) xs)"
  by (induction xs) auto

lemma concat_singletons: "concat (map (\<lambda>c. [c]) xs) = xs"
  by (induction xs) auto

lemma charset_trim_single:
  "concat (castSlice (map (\<lambda>c. [c]) xs) (charsStartIndex (map (\<lambda>c. [c]) xs) [[a]])
            (nat (charsEndIndex (map (\<lambda>c. [c]) xs) [[a]] + 1)))
   = rev (dropWhile (\<lambda>c. c = a) (rev (dropWhile (\<lambda>c. c = a) xs)))"
proof -
  let ?P = "\<lambda>c. c = a"
  let ?s = "length (takeWhile ?P xs)"
  let ?e = "length (takeWhile ?P (rev xs))"
  have e_le: "?e \<le> length xs"
    by (metis length_rev length_takeWhile_le)
  have start: "charsStartIndex (map (\<lambda>c. [c]) xs) [[a]] = ?s"
    by (simp add: charsStartIndex_def singleton_symbols)
  have "charsEndIndex (map (\<lambda>c. [c]) xs) [[a]] + 1 = int (length xs) - int ?e"
    by (simp add: charsEndIndex_def rev_map singleton_symbols)
  then have endix: "nat (charsEndIndex (map (\<lambda>c. [c]) xs) [[a]] + 1) = length xs - ?e"
    using e_le by simp
  have "concat (castSlice (map (\<lambda>c. [c]) xs) ?s (length xs - ?e)) = take (length xs - ?e - ?s) (drop ?s xs)"
    by (simp add: castSlice_def take_map drop_map concat_singletons)
  also have "\<dots> = take (length xs - ?e - ?s) (dropWhile ?P xs)"
    by (simp add: dropWhile_eq_drop)
  also have "\<dots> = rev (dropWhile ?P (rev (dropWhile ?P xs)))"
  proof (cases "dropWhile ?P xs = []")
    case True
    show ?thesis unfolding True by simp
  next
    case False
    then have "?e = length (takeWhile ?P (rev (dropWhile ?P xs)))"
      using takeWhile_rev_dropWhile[of ?P xs] by simp
    moreover have "length (dropWhile ?P xs) = length xs - ?s"
      by (simp add: dropWhile_eq_drop)
    ultimately show ?thesis
      using drop_takeWhile_rev[of "dropWhile ?P xs" ?P] by (simp add: ac_simps)
  qed
  finally show ?thesis by (simp add: start endix)
qed

lemma charset_trimStart_single:
  "concat (castSlice (map (\<lambda>c. [c]) xs) (charsStartIndex (map (\<lambda>c. [c]) xs) [[a]]) (length (map (\<lambda>c. [c]) xs)))
   = dropWhile (\<lambda>c. c = a) xs"
  by (simp add: castSlice_def charsStartIndex_def singleton_symbols drop_map concat_singletons dropWhile_eq_drop)

lemma charset_trimEnd_single:
  "concat (castSlice (map (\<lambda>c. [c]) xs) 0 (nat (charsEndIndex (map (\<lambda>c. [c]) xs) [[a]] + 1)))
   = rev (dropWhile (\<lambda>c. c = a) (rev xs))"
proof -
  let ?P = "\<lambda>c. c = a"
  let ?e = "length (takeWhile ?P (rev xs))"
  have e_le: "?e \<le> length xs"
    by (metis length_rev length_takeWhile_le)
  have "charsEndIndex (map (\<lambda>c. [c]) xs) [[a]] + 1 = int (length xs) - int ?e"
    by (simp add: charsEndIndex_def rev_map singleton_symbols)
  then have endix: "nat (charsEndIndex (map (\<lambda>c. [c]) xs) [[a]] + 1) = length xs - ?e"
    using e_le by simp
  show ?thesis
    unfolding endix
    by (simp add: castSlice_def take_map concat_singletons drop_takeWhile_rev)
qed

lemma plain_symbols: "\<not> hasUnicode s \<Longrightarrow> stringToArray u s = map (\<lambda>c. [c]) s"
  by (simp add: stringToArray_def)

lemma space_symbols: "stringToArray u (js '' '') = [[0x20]]"
  by (simp add: stringToArray_def hasUnicode_def inRanges_def js_def cu_def)

text \<open>
  C7, as stated: for every trim (as a unit or per character) whose trim string is a single
  space, the result is the whitespace trim. Per character this fails: lodash's \<^verbatim>\<open>trim(text, ' ')\<close>
  removes only the characters of the given set, and a leading tab stays.
\<close>

theorem trim_single_space_counterexample:
  "manipulate no_libs 0 (Trim \<lparr>trim = ''trimBoth'', trimString = js '' '', trimStringUnit = False\<rparr>) (0x09 # js ''ab'')
   \<noteq> Inr (js_trim (0x09 # js ''ab''))"
  by code_simp

text \<open>
  C7, amended: when the trim string is a single space, trimming as a unit is the
  whitespace trim of the affected end or ends (all white space, such as tab, line feed and
  no-break space, not only spaces); trimming per character removes only the spaces
  (U+0020) there, for a text without astral or combining symbols.
\<close>

theorem trim_single_space:
  assumes "trimString p = js '' ''"
  shows "(trimStringUnit p \<longrightarrow>
           (trim p = ''trimBoth'' \<longrightarrow> manipulate L i (Trim p) text
              = Inr (rev (dropWhile isWhiteSpace (rev (dropWhile isWhiteSpace text)))))
         \<and> (trim p = ''trimStart'' \<longrightarrow> manipulate L i (Trim p) text = Inr (dropWhile isWhiteSpace text))
         \<and> (trim p = ''trimEnd'' \<longrightarrow> manipulate L i (Trim p) text
              = Inr (rev (dropWhile isWhiteSpace (rev text)))))
       \<and> (\<not> trimStringUnit p \<and> \<not> hasUnicode text \<longrightarrow>
           (trim p = ''trimBoth'' \<longrightarrow> manipulate L i (Trim p) text
              = Inr (rev (dropWhile (\<lambda>c. c = 0x20) (rev (dropWhile (\<lambda>c. c = 0x20) text)))))
         \<and> (trim p = ''trimStart'' \<longrightarrow> manipulate L i (Trim p) text = Inr (dropWhile (\<lambda>c. c = 0x20) text))
         \<and> (trim p = ''trimEnd'' \<longrightarrow> manipulate L i (Trim p) text
              = Inr (rev (dropWhile (\<lambda>c. c = 0x20) (rev text)))))
       \<and> isWhiteSpace 0x09 \<and> isWhiteSpace 0x0A \<and> isWhiteSpace 0xA0"
proof -
  have unit: "trimStringUnit p \<longrightarrow>
           (trim p = ''trimBoth'' \<longrightarrow> manipulate L i (Trim p) text
              = Inr (rev (dropWhile isWhiteSpace (rev (dropWhile isWhiteSpace text)))))
         \<and> (trim p = ''trimStart'' \<longrightarrow> manipulate L i (Trim p) text = Inr (dropWhile isWhiteSpace text))
         \<and> (trim p = ''trimEnd'' \<longrightarrow> manipulate L i (Trim p) text
              = Inr (rev (dropWhile isWhiteSpace (rev text))))"
    using assms
    by (simp add: trim_action_def charsTrim_def charsTrimStart_def charsTrimEnd_def
        js_trim_def js_trimStart_def js_trimEnd_def)
  have nonempty: "js '' '' \<noteq> []" by (simp add: js_def)
  have chars: "\<not> trimStringUnit p \<and> \<not> hasUnicode text \<longrightarrow>
           (trim p = ''trimBoth'' \<longrightarrow> manipulate L i (Trim p) text
              = Inr (rev (dropWhile (\<lambda>c. c = 0x20) (rev (dropWhile (\<lambda>c. c = 0x20) text)))))
         \<and> (trim p = ''trimStart'' \<longrightarrow> manipulate L i (Trim p) text = Inr (dropWhile (\<lambda>c. c = 0x20) text))
         \<and> (trim p = ''trimEnd'' \<longrightarrow> manipulate L i (Trim p) text
              = Inr (rev (dropWhile (\<lambda>c. c = 0x20) (rev text))))"
  proof (cases "text = []")
    case True
    then show ?thesis
      by (simp add: trim_action_def lodash_trim_def lodash_trimStart_def lodash_trimEnd_def)
  next
    case False
    then show ?thesis
      using assms nonempty charset_trim_single[of "text" "0x20"] charset_trimStart_single[of "text" "0x20"]
        charset_trimEnd_single[of "text" "0x20"]
      by (simp add: trim_action_def lodash_trim_def lodash_trimStart_def lodash_trimEnd_def
          space_symbols plain_symbols Let_def)
  qed
  have ws: "isWhiteSpace 0x09 \<and> isWhiteSpace 0x0A \<and> isWhiteSpace 0xA0"
    by (simp add: isWhiteSpace_def inRanges_def spaceRanges_def)
  from unit chars ws show ?thesis by blast
qed

theorem trim_single_space_witness:
  "trimString \<lparr>trim = ''trimBoth'', trimString = js '' '', trimStringUnit = True\<rparr> = js '' ''
   \<and> \<not> hasUnicode (0x09 # js '' ab  '')
   \<and> manipulate no_libs 0 (Trim \<lparr>trim = ''trimBoth'', trimString = js '' '', trimStringUnit = True\<rparr>)
        (0x09 # js '' ab  '') = Inr (js ''ab'')
   \<and> manipulate no_libs 0 (Trim \<lparr>trim = ''trimBoth'', trimString = js '' '', trimStringUnit = False\<rparr>)
        (0x09 # js '' ab  '') = Inr (0x09 # js '' ab'')"
  using trim_single_space [of "\<lparr>trim = ''trimBoth'', trimString = js '' '', trimStringUnit = True\<rparr>"
          no_libs 0 "0x09 # js '' ab  ''"]
        trim_single_space [of "\<lparr>trim = ''trimBoth'', trimString = js '' '', trimStringUnit = False\<rparr>"
          no_libs 0 "0x09 # js '' ab  ''"]
  by (simp add: hasUnicode_def isWhiteSpace_def inRanges_def spaceRanges_def js_def cu_def)

subsection \<open>Character groups\<close>


lemma digit_char: "d < 10 \<Longrightarrow> isDigit (of_nat (48 + d)) \<and> unat (of_nat (48 + d) :: code_unit) = 48 + d"
proof -
  assume "d < 10"
  then have "d \<in> {0,1,2,3,4,5,6,7,8,9}" by auto
  then show ?thesis by (auto simp add: isDigit_def)
qed

lemma natDigits_digits: "list_all isDigit (natDigits n)"
proof (induction n rule: natDigits.induct)
  case (1 n)
  show ?case
  proof (cases "n < 10")
    case True
    then show ?thesis using digit_char[of n] by (subst natDigits.simps) simp
  next
    case False
    then show ?thesis using 1 digit_char[of "n mod 10"] by (subst natDigits.simps) simp
  qed
qed

lemma natDigits_nonempty: "natDigits n \<noteq> []"
  by (subst natDigits.simps) simp

lemma decimalValue_snoc: "decimalValue (ds @ [c]) = 10 * decimalValue ds + (unat c - 48)"
  by (simp add: decimalValue_def)

lemma decimalValue_natDigits: "decimalValue (natDigits n) = n"
proof (induction n rule: natDigits.induct)
  case (1 n)
  show ?case
  proof (cases "n < 10")
    case True
    then show ?thesis using digit_char[of n] by (subst natDigits.simps) (simp add: decimalValue_def)
  next
    case False
    then show ?thesis using 1 digit_char[of "n mod 10"]
      by (subst natDigits.simps) (simp add: decimalValue_snoc)
  qed
qed

lemma readDigits_append:
  "list_all isDigit ds \<Longrightarrow> \<not> isDigit c \<Longrightarrow> readDigits (ds @ c # r) = (ds, c # r)"
  by (induction ds) auto

lemma not_digit: "\<not> isDigit (cu CHR '','')" "\<not> isDigit (cu CHR ''}'')"
  by (simp_all add: isDigit_def cu_def)

lemma parseBraces_open:
  "parseBraces (natDigits n @ js '',}'' @ r) = Some ((n, None), r)"
proof -
  obtain d ds where nd: "natDigits n = d # ds"
    using natDigits_nonempty[of n] by (cases "natDigits n") auto
  have rd: "readDigits (natDigits n @ cu CHR '','' # cu CHR ''}'' # r) = (natDigits n, cu CHR '','' # cu CHR ''}'' # r)"
    by (rule readDigits_append[OF natDigits_digits not_digit(1)])
  have c: "cu CHR '','' \<noteq> cu CHR ''}''" by (simp add: cu_def)
  have "parseBraces (natDigits n @ cu CHR '','' # cu CHR ''}'' # r) = Some ((decimalValue (natDigits n), None), r)"
    unfolding parseBraces_def rd using not_digit(2) by (simp add: nd c)
  then show ?thesis by (simp add: js_def decimalValue_natDigits)
qed

lemma parseBraces_range:
  "parseBraces (natDigits n @ js '','' @ natDigits m @ js ''}'' @ r) = Some ((n, Some m), r)"
proof -
  obtain d ds where nd: "natDigits n = d # ds"
    using natDigits_nonempty[of n] by (cases "natDigits n") auto
  obtain e es where md: "natDigits m = e # es"
    using natDigits_nonempty[of m] by (cases "natDigits m") auto
  have rd: "readDigits (natDigits n @ cu CHR '','' # natDigits m @ cu CHR ''}'' # r)
            = (natDigits n, cu CHR '','' # natDigits m @ cu CHR ''}'' # r)"
    by (rule readDigits_append[OF natDigits_digits not_digit(1)])
  have rd2: "readDigits (natDigits m @ cu CHR ''}'' # r) = (natDigits m, cu CHR ''}'' # r)"
    by (rule readDigits_append[OF natDigits_digits not_digit(2)])
  have c: "cu CHR '','' \<noteq> cu CHR ''}''" by (simp add: cu_def)
  have "parseBraces (natDigits n @ cu CHR '','' # natDigits m @ cu CHR ''}'' # r)
        = Some ((decimalValue (natDigits n), Some (decimalValue (natDigits m))), r)"
    unfolding parseBraces_def rd by (simp add: nd c rd2 del: readDigits.simps) (simp add: md)
  then show ?thesis by (simp add: js_def decimalValue_natDigits)
qed

lemma numberToString_nat:
  "0 \<le> i \<Longrightarrow> i \<le> maxSafeInteger \<Longrightarrow> numberToString i = Inr (natDigits (nat i))"
  by (simp add: numberToString_def)

text \<open>
  C4, as stated: a minimum of zero gives \<^verbatim>\<open>*\<close> whatever the maximum is. With the digit class
  enabled, minimum 0 and maximum 3, the group is \<^verbatim>\<open>\d{3}\<close>, not \<^verbatim>\<open>\d*\<close>.
\<close>

theorem characterGroups_min_zero_counterexample:
  "characterGroups (replace_defaults\<lparr>number := True, numberMin := 0, numberMax := 3\<rparr>) = Inr [0x5C # js ''d{3}'']
   \<and> characterGroups (replace_defaults\<lparr>number := True, numberMin := 0, numberMax := 3\<rparr>) \<noteq> Inr [0x5C # js ''d*'']"
  by code_simp

text \<open>
  C4, amended: each enabled character class is given a repetition count, for a minimum
  and a maximum that are integers from 0 to \<open>2^53 - 1\<close>: both zero give \<^verbatim>\<open>*\<close> (zero or more); a
  positive minimum and maximum zero give \<^verbatim>\<open>{min,}\<close> (min or more); both positive give
  \<^verbatim>\<open>{min,max}\<close>, which the \<^verbatim>\<open>RegExp\<close> constructor rejects when max is less than min. The count
  is given as text and as the quantifier that the expression parser reads from that
  text; the groups of the rule are the counted classes that are enabled.
\<close>

theorem characterGroups_counts:
  assumes "0 \<le> mn" and "mn \<le> maxSafeInteger" and "0 \<le> mx" and "mx \<le> maxSafeInteger"
  shows "(mn = 0 \<and> mx = 0 \<longrightarrow>
            buildRegexGroup base mn mx = Inr (base @ js ''*'')
            \<and> parseQuantifier (js ''*'') = Inr (Some (0, None, True), []))
       \<and> (mn \<noteq> 0 \<and> mx = 0 \<longrightarrow>
            buildRegexGroup base mn mx = Inr (base @ js ''{'' @ natDigits (nat mn) @ js '',}'')
            \<and> parseQuantifier (js ''{'' @ natDigits (nat mn) @ js '',}'') = Inr (Some (nat mn, None, True), []))
       \<and> (mn \<noteq> 0 \<and> mx \<noteq> 0 \<longrightarrow>
            buildRegexGroup base mn mx
              = Inr (base @ js ''{'' @ natDigits (nat mn) @ js '','' @ natDigits (nat mx) @ js ''}'')
            \<and> parseQuantifier (js ''{'' @ natDigits (nat mn) @ js '','' @ natDigits (nat mx) @ js ''}'')
                = (if mx < mn then Inl SyntaxError else Inr (Some (nat mn, Some (nat mx), True), [])))
       \<and> (characterGroups p = Inr groups \<longrightarrow>
            (newline p \<longrightarrow>
               buildRegexGroup (js ''('' @ [0x5C] @ js ''r'' @ [0x5C] @ js ''n|'' @ [0x5C] @ js ''r|'' @ [0x5C] @ js ''n)'')
                      (newlineMin p) (newlineMax p) \<in> Inr ` set groups)
          \<and> (number p \<longrightarrow>
               buildRegexGroup ([0x5C] @ js ''d'') (numberMin p) (numberMax p) \<in> Inr ` set groups)
          \<and> (alpha p \<longrightarrow>
               buildRegexGroup (js ''[a-zA-Z]'') (alphaMin p) (alphaMax p) \<in> Inr ` set groups)
          \<and> (whitespace p \<longrightarrow>
               buildRegexGroup ([0x5C] @ js ''s'') (whitespaceMin p) (whitespaceMax p) \<in> Inr ` set groups))"
proof -
  have brace: "js ''{'' @ s = cu CHR ''{'' # s" for s by (simp add: js_def)
  have ne: "cu CHR ''{'' \<noteq> cu CHR ''*''" "cu CHR ''{'' \<noteq> cu CHR ''+''" "cu CHR ''{'' \<noteq> cu CHR ''?''"
    by (simp_all add: cu_def)
  have star: "parseQuantifier (js ''*'') = Inr (Some (0, None, True), [])"
    by (simp add: parseQuantifier_def js_def)
  have opn: "parseQuantifier (js ''{'' @ natDigits n @ js '',}'') = Inr (Some (n, None, True), [])" for n
    using parseBraces_open[of n "[]"] by (simp add: parseQuantifier_def brace ne)
  have rng: "parseQuantifier (js ''{'' @ natDigits n @ js '','' @ natDigits m @ js ''}'')
             = (if m < n then Inl SyntaxError else Inr (Some (n, Some m, True), []))" for n m
    using parseBraces_range[of n m "[]"] by (simp add: parseQuantifier_def brace ne)
  have lo: "numberToString mn = Inr (natDigits (nat mn))"
    by (rule numberToString_nat[OF assms(1,2)])
  have hi: "numberToString mx = Inr (natDigits (nat mx))"
    by (rule numberToString_nat[OF assms(3,4)])
  have counts: "(mn = 0 \<and> mx = 0 \<longrightarrow>
            buildRegexGroup base mn mx = Inr (base @ js ''*'')
            \<and> parseQuantifier (js ''*'') = Inr (Some (0, None, True), []))
       \<and> (mn \<noteq> 0 \<and> mx = 0 \<longrightarrow>
            buildRegexGroup base mn mx = Inr (base @ js ''{'' @ natDigits (nat mn) @ js '',}'')
            \<and> parseQuantifier (js ''{'' @ natDigits (nat mn) @ js '',}'') = Inr (Some (nat mn, None, True), []))
       \<and> (mn \<noteq> 0 \<and> mx \<noteq> 0 \<longrightarrow>
            buildRegexGroup base mn mx
              = Inr (base @ js ''{'' @ natDigits (nat mn) @ js '','' @ natDigits (nat mx) @ js ''}'')
            \<and> parseQuantifier (js ''{'' @ natDigits (nat mn) @ js '','' @ natDigits (nat mx) @ js ''}'')
                = (if mx < mn then Inl SyntaxError else Inr (Some (nat mn, Some (nat mx), True), [])))"
    using assms(1,3)
    by (simp add: buildRegexGroup_def lo hi bind_def star opn rng nat_less_eq_zless)
  have groups: "characterGroups p = Inr groups \<longrightarrow>
            (newline p \<longrightarrow>
               buildRegexGroup (js ''('' @ [0x5C] @ js ''r'' @ [0x5C] @ js ''n|'' @ [0x5C] @ js ''r|'' @ [0x5C] @ js ''n)'')
                      (newlineMin p) (newlineMax p) \<in> Inr ` set groups)
          \<and> (number p \<longrightarrow>
               buildRegexGroup ([0x5C] @ js ''d'') (numberMin p) (numberMax p) \<in> Inr ` set groups)
          \<and> (alpha p \<longrightarrow>
               buildRegexGroup (js ''[a-zA-Z]'') (alphaMin p) (alphaMax p) \<in> Inr ` set groups)
          \<and> (whitespace p \<longrightarrow>
               buildRegexGroup ([0x5C] @ js ''s'') (whitespaceMin p) (whitespaceMax p) \<in> Inr ` set groups)"
    by (auto simp add: characterGroups_def pushGroup_def bind_def split: sum.splits if_splits)
  from counts groups show ?thesis by blast
qed

theorem characterGroups_counts_witness:
  "(0::int) \<le> 2 \<and> (2::int) \<le> maxSafeInteger \<and> (0::int) \<le> 5 \<and> (5::int) \<le> maxSafeInteger
   \<and> buildRegexGroup (js ''[a-zA-Z]'') 0 0 = Inr (js ''[a-zA-Z]*'')
   \<and> buildRegexGroup (js ''[a-zA-Z]'') 2 0 = Inr (js ''[a-zA-Z]{2,}'')
   \<and> buildRegexGroup (js ''[a-zA-Z]'') 2 5 = Inr (js ''[a-zA-Z]{2,5}'')
   \<and> parseQuantifier (js ''{2,5}'') = Inr (Some (2, Some 5, True), [])
   \<and> parseQuantifier (js ''{5,2}'') = Inl SyntaxError
   \<and> characterGroups (replace_defaults\<lparr>number := True, numberMin := 2, numberMax := 5\<rparr>) = Inr [0x5C # js ''d{2,5}'']
   \<and> buildRegexGroup ([0x5C] @ js ''d'') 2 5 = Inr (0x5C # js ''d{2,5}'')"
  using characterGroups_counts [of 0 0 "js ''[a-zA-Z]''" "replace_defaults\<lparr>number := True, numberMin := 2, numberMax := 5\<rparr>" "[0x5C # js ''d{2,5}'']"]
        characterGroups_counts [of 2 0 "js ''[a-zA-Z]''" "replace_defaults\<lparr>number := True, numberMin := 2, numberMax := 5\<rparr>" "[0x5C # js ''d{2,5}'']"]
        characterGroups_counts [of 2 5 "js ''[a-zA-Z]''" "replace_defaults\<lparr>number := True, numberMin := 2, numberMax := 5\<rparr>" "[0x5C # js ''d{2,5}'']"]
        characterGroups_counts [of 5 2 "js ''[a-zA-Z]''" "replace_defaults\<lparr>number := True, numberMin := 2, numberMax := 5\<rparr>" "[0x5C # js ''d{2,5}'']"]
  by code_simp

subsection \<open>Replacing with a regular expression\<close>


lemma regExpExec_plain:
  "\<not> rx_sticky R \<Longrightarrow> regExpExec R s i = firstMatch R s [i ..< Suc (length s)]"
  by (simp add: regExpExec_def)

lemma new_RegExp_literal: "new_RegExp (js ''^/(.*?)/([gimusy]*)$'') [] = Inr literalRegExp"
  by code_simp

lemma in_flagSet: "in_cset flagSet c = (c \<in> set (js ''gimusy''))"
  by (auto simp add: flagSet_def inRanges_def js_def cu_def)

lemma star_greedy_unfold:
  "rx_match E (RRepeat r 0 None True) n k x =
     (case rx_match E r (budget E)
              (\<lambda>y. if fst y = fst x then None
                    else case n of 0 \<Rightarrow> None | Suc n' \<Rightarrow> rx_match E (RRepeat r 0 None True) n' k y)
              (fst x, fold (\<lambda>i cs. cs[i - 1 := None]) (groupIndices r) (snd x))
      of Some z \<Rightarrow> Some z | None \<Rightarrow> k x)"
  by (subst rx_match.simps) (simp add: Let_def cong: if_cong nat.case_cong option.case_cong)

lemma star_lazy_unfold:
  "rx_match E (RRepeat r 0 None False) n k x =
     (case k x of Some z \<Rightarrow> Some z
      | None \<Rightarrow> rx_match E r (budget E)
              (\<lambda>y. if fst y = fst x then None
                    else case n of 0 \<Rightarrow> None | Suc n' \<Rightarrow> rx_match E (RRepeat r 0 None False) n' k y)
              (fst x, fold (\<lambda>i cs. cs[i - 1 := None]) (groupIndices r) (snd x)))"
  by (subst rx_match.simps) (simp add: Let_def cong: if_cong nat.case_cong option.case_cong)

lemma greedy_class_to_end:
  assumes "\<not> ignoreCase E" and "\<forall>q cs. q < length (input E) \<longrightarrow> k (q, cs) = None"
  shows "p \<le> length (input E) \<Longrightarrow> length (input E) - p \<le> n \<Longrightarrow>
         rx_match E (RRepeat (RClass False C) 0 None True) n k (p, cs)
         = (if list_all (in_cset C) (drop p (input E)) then k (length (input E), cs) else None)"
proof (induction "length (input E) - p" arbitrary: p n)
  case 0
  then have "p = length (input E)" by simp
  then show ?case
    by (subst star_greedy_unfold) (simp add: rx_match.simps(3))
next
  case (Suc m)
  then have lt: "p < length (input E)" by simp
  then obtain n' where n: "n = Suc n'" using Suc.prems(2) by (cases n) auto
  have ih: "rx_match E (RRepeat (RClass False C) 0 None True) n' k (Suc p, cs)
            = (if list_all (in_cset C) (drop (Suc p) (input E)) then k (length (input E), cs) else None)"
    using Suc.hyps(1)[of "Suc p" n'] Suc.hyps(2) Suc.prems n lt by simp
  have kp: "k (p, cs) = None" using assms(2) lt by simp
  have dr: "drop p (input E) = input E ! p # drop (Suc p) (input E)"
    using lt by (simp add: Cons_nth_drop_Suc)
  show ?case
    by (subst star_greedy_unfold)
       (auto simp add: rx_match.simps(3) assms(1) lt n ih kp dr split: option.splits)
qed

lemma lazy_dot_finds:
  assumes "\<not> dotAll E"
  shows "q0 \<le> length (input E) \<Longrightarrow> p \<le> q0 \<Longrightarrow> length (input E) - p \<le> n \<Longrightarrow>
         (\<forall>q. p \<le> q \<and> q < q0 \<longrightarrow> \<not> isLineTerminator (input E ! q) \<and> k (q, cs) = None) \<Longrightarrow>
         k (q0, cs) = Some z \<Longrightarrow>
         rx_match E (RRepeat RDot 0 None False) n k (p, cs) = Some z"
proof (induction "q0 - p" arbitrary: p n)
  case 0
  then have "p = q0" by simp
  then show ?case using 0 by (subst star_lazy_unfold) simp
next
  case (Suc m)
  then have lt: "p < q0" by simp
  then have lt2: "p < length (input E)" using Suc.prems(1) by simp
  then obtain n' where n: "n = Suc n'" using Suc.prems(3) by (cases n) auto
  have kp: "k (p, cs) = None" and nl: "\<not> isLineTerminator (input E ! p)"
    using Suc.prems(4) lt by auto
  have "rx_match E (RRepeat RDot 0 None False) n' k (Suc p, cs) = Some z"
    using Suc.hyps(1)[of "Suc p" n'] Suc.hyps(2) Suc.prems n lt by simp
  then show ?case
    by (subst star_lazy_unfold) (simp add: rx_match.simps(4) assms kp nl lt2 n)
qed

lemma lazy_dot_found:
  assumes "\<not> dotAll E"
  shows "p \<le> length (input E) \<Longrightarrow> rx_match E (RRepeat RDot 0 None False) n k (p, cs) = Some z \<Longrightarrow>
         \<exists>q0. p \<le> q0 \<and> q0 \<le> length (input E) \<and> (\<forall>q. p \<le> q \<and> q < q0 \<longrightarrow> \<not> isLineTerminator (input E ! q))
              \<and> k (q0, cs) = Some z"
proof (induction n arbitrary: p)
  case 0
  then show ?case
    by (subst (asm) star_lazy_unfold) (auto simp add: rx_match.simps(4) split: option.splits if_splits)
next
  case (Suc n)
  show ?case
  proof (cases "k (p, cs)")
    case (Some z')
    then have "z' = z" using Suc.prems(2) by (subst (asm) star_lazy_unfold) simp
    then show ?thesis using Some Suc.prems(1) by auto
  next
    case None
    then have c: "p < length (input E)" "\<not> isLineTerminator (input E ! p)"
      and r: "rx_match E (RRepeat RDot 0 None False) n k (Suc p, cs) = Some z"
      using Suc.prems(2) assms
      by (subst (asm) star_lazy_unfold; simp add: rx_match.simps(4) split: if_splits)+
    from Suc.IH[OF _ r] c(1) obtain q0 where
      q0: "Suc p \<le> q0" "q0 \<le> length (input E)" "\<forall>q. Suc p \<le> q \<and> q < q0 \<longrightarrow> \<not> isLineTerminator (input E ! q)"
          "k (q0, cs) = Some z"
      by auto
    have "\<forall>q. p \<le> q \<and> q < q0 \<longrightarrow> \<not> isLineTerminator (input E ! q)"
      using q0(3) c(2) by (metis Suc_leI le_neq_implies_less)
    then show ?thesis using q0 by (intro exI[of _ q0]) auto
  qed
qed


lemma rx_env_literal: "rx_env_of literalRegExp r = litEnv r"
  by (simp add: rx_env_of_def literalRegExp_def litEnv_def literalAst_def afterBody_def)

lemma litEnv_sel:
  "ignoreCase (litEnv r) = False" "multiline (litEnv r) = False" "dotAll (litEnv r) = False"
  "input (litEnv r) = r" "budget (litEnv r) = length r + 1"
  by (simp_all add: litEnv_def)

lemma literalRegExp_sel:
  "rx_ast literalRegExp = literalAst" "rx_groups literalRegExp = 2" "rx_global literalRegExp = False"
  "rx_ignoreCase literalRegExp = False" "rx_sticky literalRegExp = False" "rx_unicode literalRegExp = False"
  by (simp_all add: literalRegExp_def)

lemma rx_empty_eta: "rx_match E REmpty n k = k"
  by (rule ext) (simp add: rx_match.simps)

lemma afterBody_match:
  "rx_match (litEnv r) afterBody n Some (q, cs)
   = (if flagsFrom r q then Some (length r, cs[Suc 0 := Some (Suc q, length r)]) else None)"
proof (cases "q < length r \<and> r ! q = 47")
  case False
  then show ?thesis
    by (auto simp add: afterBody_def rx_match.simps(1-9) litEnv_sel canonicalize_def flagsFrom_def)
next
  case True
  let ?k = "\<lambda>y. rx_match (litEnv r) (RSeq REol REmpty) (budget (litEnv r)) Some
                   (fst y, (snd y)[2 - 1 := Some (fst (Suc q, cs), fst y)])"
  have k: "?k (p, cs') = (if p = length r then Some (p, cs'[Suc 0 := Some (Suc q, p)]) else None)" for p cs'
    by (simp add: rx_match.simps(1-9) litEnv_sel)
  have "rx_match (litEnv r) (RRepeat (RClass False flagSet) 0 None True) (budget (litEnv r)) ?k (Suc q, cs)
        = (if list_all (in_cset flagSet) (drop (Suc q) (input (litEnv r))) then ?k (length (input (litEnv r)), cs) else None)"
    by (rule greedy_class_to_end) (use True in \<open>simp_all add: rx_match.simps(1-9) litEnv_sel\<close>)
  then show ?thesis
    using True
    by (simp add: afterBody_def rx_match.simps(1-9) rx_empty_eta canonicalize_def flagsFrom_def k litEnv_sel)
qed

lemma matchAt_literal:
  "matchAt literalRegExp r i
   = (if i = 0 \<and> r \<noteq> [] \<and> r ! 0 = 47
      then rx_match (litEnv r) (RRepeat RDot 0 None False) (length r + 1) (bodyK r) (Suc 0, [None, None])
      else None)"
proof -
  have "(\<lambda>y. rx_match (litEnv r) afterBody (length r + 1) Some (fst y, (snd y)[0 := Some (Suc 0, fst y)])) = bodyK r"
    by (rule ext) (simp add: afterBody_match bodyK_def)
  then show ?thesis
    by (auto simp add: matchAt_def rx_env_literal literalRegExp_sel literalAst_def rx_match.simps(1-9)
          rx_empty_eta litEnv_sel canonicalize_def numeral_2_eq_2)
qed

lemma firstMatch_none:
  "\<forall>i \<in> set ixs. matchAt R s i = None \<Longrightarrow> firstMatch R s ixs = None"
  by (induction ixs) auto

lemma regExpExec_literal:
  "regExpExec literalRegExp r 0
   = (case matchAt literalRegExp r 0 of Some (e, cs) \<Rightarrow> Some (0, e, cs) | None \<Rightarrow> None)"
proof -
  have ns: "\<not> rx_sticky literalRegExp" by (simp add: literalRegExp_sel)
  have a: "[0 ..< Suc (length r)] = 0 # [Suc 0 ..< Suc (length r)]"
    by (simp add: upt_conv_Cons del: upt_Suc)
  have b: "firstMatch literalRegExp r [Suc 0 ..< Suc (length r)] = None"
    by (rule firstMatch_none) (simp add: matchAt_literal)
  show ?thesis
    unfolding regExpExec_plain[OF ns] a by (simp add: b split: option.splits del: upt_Suc)
qed

lemma slash_not_flag: "\<not> in_cset flagSet 47"
  by (simp add: in_flagSet js_def cu_def)

lemma regexLiteral_form:
  assumes "literalForm r body flags"
  shows "regexLiteral r = Inr (Some [Some r, Some body, Some flags])"
proof -
  let ?q0 = "Suc (length body)"
  from assms have r: "r = 47 # body @ 47 # flags"
    and fl: "list_all (in_cset flagSet) flags" and nl: "list_all (\<lambda>c. \<not> isLineTerminator c) body"
    by (auto simp add: literalForm_def cu_def in_flagSet list_all_iff)
  have len: "length r = Suc (Suc (length body + length flags))" using r by simp
  have at: "r ! ?q0 = 47" using r by (simp add: nth_append)
  have dr: "drop (Suc ?q0) r = flags" using r by simp
  have f0: "flagsFrom r ?q0"
    using at dr fl len by (simp add: flagsFrom_def)
  have before: "\<not> isLineTerminator (r ! q) \<and> bodyK r (q, cs) = None" if q1: "Suc 0 \<le> q" and q2: "q < ?q0" for q cs
  proof -
    obtain j where j: "q = Suc j" "j < length body" using q1 q2 by (cases q) auto
    have "r ! q = body ! j" using r j by (simp add: nth_append)
    then have a: "\<not> isLineTerminator (r ! q)" using nl j by (simp add: list_all_length)
    have "r ! ?q0 \<in> set (drop (Suc q) r)"
      using q1 q2 len by (auto simp add: in_set_conv_nth intro!: exI[of _ "?q0 - Suc q"])
    then have "\<not> list_all (in_cset flagSet) (drop (Suc q) r)"
      using at slash_not_flag by (auto simp add: list_all_iff)
    then show ?thesis using a by (simp add: bodyK_def flagsFrom_def)
  qed
  have "rx_match (litEnv r) (RRepeat RDot 0 None False) (length r + 1) (bodyK r) (Suc 0, [None, None])
        = Some (length r, [Some (Suc 0, ?q0), Some (Suc ?q0, length r)])"
    by (rule lazy_dot_finds[where ?q0.0 = ?q0])
       (use len before f0 in \<open>auto simp add: litEnv_sel bodyK_def\<close>)
  then have m: "matchAt literalRegExp r 0 = Some (length r, [Some (Suc 0, ?q0), Some (Suc ?q0, length r)])"
    using r by (simp add: matchAt_literal)
  have b: "take (length body) (drop (Suc 0) r) = body" using r by simp
  have c: "take (length r - Suc ?q0) (drop (Suc ?q0) r) = flags" using dr len by simp
  have "js_match r literalRegExp = Inr (Some [Some r, Some body, Some flags])"
    using b c dr
    by (simp add: js_match_def regExpExec_literal m captureTexts_def captureText_def literalRegExp_sel
          upt_conv_Cons numeral_2_eq_2 del: upt_Suc)
  then show ?thesis
    by (simp add: regexLiteral_def new_RegExp_literal bind_def)
qed

lemma regexLiteral_other:
  assumes "\<forall>body flags. \<not> literalForm r body flags"
  shows "regexLiteral r = Inr None"
proof -
  have "matchAt literalRegExp r 0 = None"
  proof (rule ccontr)
    assume "matchAt literalRegExp r 0 \<noteq> None"
    then obtain z where z: "matchAt literalRegExp r 0 = Some z" by auto
    then have r0: "r \<noteq> []" "r ! 0 = 47"
      and lz: "rx_match (litEnv r) (RRepeat RDot 0 None False) (length r + 1) (bodyK r) (Suc 0, [None, None]) = Some z"
      by (auto simp add: matchAt_literal split: if_splits)
    have "Suc 0 \<le> length (input (litEnv r))" using r0 by (cases r) (auto simp add: litEnv_sel)
    from lazy_dot_found[OF litEnv_sel(3)[THEN eq_False[THEN iffD1]] this lz] obtain q0 where
      q0: "Suc 0 \<le> q0" "q0 \<le> length r" "\<forall>q. Suc 0 \<le> q \<and> q < q0 \<longrightarrow> \<not> isLineTerminator (r ! q)"
          "bodyK r (q0, [None, None]) = Some z"
      by (auto simp add: litEnv_sel)
    then have ff: "flagsFrom r q0" by (auto simp add: bodyK_def split: if_splits)
    let ?body = "take (q0 - Suc 0) (drop (Suc 0) r)"
    let ?flags = "drop (Suc q0) r"
    have lt: "q0 < length r" and at: "r ! q0 = 47" and fl: "list_all (in_cset flagSet) ?flags"
      using ff by (auto simp add: flagsFrom_def)
    have "r = take q0 r @ r ! q0 # drop (Suc q0) r" using lt by (simp add: id_take_nth_drop[symmetric])
    moreover have "take q0 r = 47 # ?body"
      using q0(1) r0 lt by (cases r; cases q0) auto
    ultimately have shape: "r = 47 # ?body @ 47 # ?flags" using at by simp
    have "list_all (\<lambda>c. \<not> isLineTerminator c) ?body"
      using q0(3) lt by (auto simp add: list_all_length)
    then have "literalForm r ?body ?flags"
      using shape fl by (auto simp add: literalForm_def cu_def in_flagSet list_all_iff)
    then show False using assms by blast
  qed
  then have "js_match r literalRegExp = Inr None"
    by (simp add: js_match_def regExpExec_literal literalRegExp_sel)
  then show ?thesis
    by (simp add: regexLiteral_def new_RegExp_literal bind_def)
qed


text \<open>
  C5, as stated: replacing \<^verbatim>\<open>/a(b)c/gi\<close> by \<^verbatim>\<open>$1\<close> in \<^verbatim>\<open>ABCxAbc\<close> gives \<^verbatim>\<open>BxB\<close>. The group captures
  the text it matched: \<^verbatim>\<open>B\<close> in \<^verbatim>\<open>ABC\<close> and \<^verbatim>\<open>b\<close> in \<^verbatim>\<open>Abc\<close>.
\<close>

theorem regex_replace_example_counterexample:
  "manipulate no_libs 0
     (Replace (replace_defaults\<lparr>replaceMode := ''regex'', regex := js ''/a(b)c/gi'', pattern := js ''$1''\<rparr>))
     (js ''ABCxAbc'') \<noteq> Inr (js ''BxB'')"
  by code_simp

text \<open>
  C5, amended: in regex mode a configured pattern of the form \<^verbatim>\<open>/body/flags\<close>, with a body on
  one line and flags drawn from \<^verbatim>\<open>g i m u s y\<close>, is split into \<open>body\<close> and \<open>flags\<close> and is the expression
  \<open>body\<close> with the flags \<open>flags\<close>; a pattern of any other form is not split and is the whole
  expression, with no flags; and replacing \<^verbatim>\<open>/a(b)c/gi\<close> by \<^verbatim>\<open>$1\<close> in \<^verbatim>\<open>ABCxAbc\<close> gives \<^verbatim>\<open>Bxb\<close>.
\<close>

theorem regex_literal_parsing:
  assumes "replaceMode p = ''regex''"
  shows "(literalForm (regex p) body flags \<longrightarrow>
            regexLiteral (regex p) = Inr (Some [Some (regex p), Some body, Some flags])
            \<and> manipulate L i (Replace p) text
              = bind (new_RegExp body flags)
                  (\<lambda>R. bind (maybeUnescape (extended p) (pattern p)) (js_replace_regexp text R)))
       \<and> ((\<forall>b f. \<not> literalForm (regex p) b f) \<longrightarrow>
            regexLiteral (regex p) = Inr None
            \<and> manipulate L i (Replace p) text
              = bind (new_RegExp (regex p) [])
                  (\<lambda>R. bind (maybeUnescape (extended p) (pattern p)) (js_replace_regexp text R)))
       \<and> manipulate L i
           (Replace (replace_defaults\<lparr>replaceMode := ''regex'', regex := js ''/a(b)c/gi'', pattern := js ''$1''\<rparr>))
           (js ''ABCxAbc'') = Inr (js ''Bxb'')"
proof -
  have a: "literalForm (regex p) body flags \<longrightarrow>
            regexLiteral (regex p) = Inr (Some [Some (regex p), Some body, Some flags])
            \<and> manipulate L i (Replace p) text
              = bind (new_RegExp body flags)
                  (\<lambda>R. bind (maybeUnescape (extended p) (pattern p)) (js_replace_regexp text R))"
    using assms by (auto simp add: replace_action_def replaceRegex_def regexLiteral_form bind_def fromOption_def)
  have b: "(\<forall>b f. \<not> literalForm (regex p) b f) \<longrightarrow>
            regexLiteral (regex p) = Inr None
            \<and> manipulate L i (Replace p) text
              = bind (new_RegExp (regex p) [])
                  (\<lambda>R. bind (maybeUnescape (extended p) (pattern p)) (js_replace_regexp text R))"
    using assms by (auto simp add: replace_action_def replaceRegex_def regexLiteral_other bind_def)
  have c: "manipulate L i
           (Replace (replace_defaults\<lparr>replaceMode := ''regex'', regex := js ''/a(b)c/gi'', pattern := js ''$1''\<rparr>))
           (js ''ABCxAbc'') = Inr (js ''Bxb'')"
    by code_simp
  from a b c show ?thesis by blast
qed

theorem regex_literal_parsing_witness:
  "replaceMode (replace_defaults\<lparr>replaceMode := ''regex'', regex := js ''/a(b)c/gi'', pattern := js ''$1''\<rparr>) = ''regex''
   \<and> literalForm (js ''/a(b)c/gi'') (js ''a(b)c'') (js ''gi'')
   \<and> literalForm (js ''/a/uy'') (js ''a'') (js ''uy'')
   \<and> (\<forall>b f. \<not> literalForm (js ''a(b)c'') b f)
   \<and> regexLiteral (js ''/a(b)c/gi'') = Inr (Some [Some (js ''/a(b)c/gi''), Some (js ''a(b)c''), Some (js ''gi'')])
   \<and> regexLiteral (js ''/a/uy'') = Inr (Some [Some (js ''/a/uy''), Some (js ''a''), Some (js ''uy'')])
   \<and> regexLiteral (js ''a(b)c'') = Inr None
   \<and> manipulate no_libs 0
       (Replace (replace_defaults\<lparr>replaceMode := ''regex'', regex := js ''/a(b)c/gi'', pattern := js ''$1''\<rparr>))
       (js ''ABCxAbc'')
     = bind (new_RegExp (js ''a(b)c'') (js ''gi''))
         (\<lambda>R. bind (maybeUnescape False (js ''$1'')) (js_replace_regexp (js ''ABCxAbc'') R))
   \<and> manipulate no_libs 0
       (Replace (replace_defaults\<lparr>replaceMode := ''regex'', regex := js ''/a/uy'', pattern := js ''-''\<rparr>))
       (js ''aXa'')
     = bind (new_RegExp (js ''a'') (js ''uy''))
         (\<lambda>R. bind (maybeUnescape False (js ''-'')) (js_replace_regexp (js ''aXa'') R))
   \<and> manipulate no_libs 0
       (Replace (replace_defaults\<lparr>replaceMode := ''regex'', regex := js ''/a/uy'', pattern := js ''-''\<rparr>))
       (js ''aXa'') = Inr (js ''-Xa'')
   \<and> manipulate no_libs 0
       (Replace (replace_defaults\<lparr>replaceMode := ''regex'', regex := js ''a(b)c'', pattern := js ''$1''\<rparr>))
       (js ''ABCxAbc'')
     = bind (new_RegExp (js ''a(b)c'') [])
         (\<lambda>R. bind (maybeUnescape False (js ''$1'')) (js_replace_regexp (js ''ABCxAbc'') R))"
proof -
  have form: "literalForm (js ''/a(b)c/gi'') (js ''a(b)c'') (js ''gi'')"
    by (simp add: literalForm_def js_def cu_def isLineTerminator_def)
  have form2: "literalForm (js ''/a/uy'') (js ''a'') (js ''uy'')"
    by (simp add: literalForm_def js_def cu_def isLineTerminator_def)
  have other: "\<forall>b f. \<not> literalForm (js ''a(b)c'') b f"
    by (simp add: literalForm_def js_def cu_def)
  have sticky: "bind (new_RegExp (js ''a'') (js ''uy''))
         (\<lambda>R. bind (maybeUnescape False (js ''-'')) (js_replace_regexp (js ''aXa'') R)) = Inr (js ''-Xa'')"
    by code_simp
  show ?thesis
    using form form2 other sticky
      regex_literal_parsing [of "replace_defaults\<lparr>replaceMode := ''regex'', regex := js ''/a(b)c/gi'', pattern := js ''$1''\<rparr>"
         "js ''a(b)c''" "js ''gi''" no_libs 0 "js ''ABCxAbc''"]
      regex_literal_parsing [of "replace_defaults\<lparr>replaceMode := ''regex'', regex := js ''/a/uy'', pattern := js ''-''\<rparr>"
         "js ''a''" "js ''uy''" no_libs 0 "js ''aXa''"]
      regex_literal_parsing [of "replace_defaults\<lparr>replaceMode := ''regex'', regex := js ''a(b)c'', pattern := js ''$1''\<rparr>"
         "js ''a(b)c''" "js ''gi''" no_libs 0 "js ''ABCxAbc''"]
    by (simp add: replace_defaults_def)
qed

subsection \<open>Trimming as a unit\<close>

text \<open>How the three expressions are parsed.\<close>

lemma special_cases:
  "c \<in> set regExpChars \<longleftrightarrow>
     c = 92 \<or> c = 94 \<or> c = 36 \<or> c = 46 \<or> c = 42 \<or> c = 43 \<or> c = 63 \<or> c = 40 \<or> c = 41 \<or> c = 91
     \<or> c = 93 \<or> c = 123 \<or> c = 125 \<or> c = 124"
  by (auto simp add: regExpChars_def js_def cu_def)

lemma escapeRegExp_Nil [simp]: "escapeRegExp [] = []"
  by (simp add: escapeRegExp_def)

lemma escapeRegExp_Cons:
  "escapeRegExp (c # t) = (if c \<in> set regExpChars then 92 # c # escapeRegExp t else c # escapeRegExp t)"
  by (simp add: escapeRegExp_def)

lemma no_quantifier_after:
  "parseQuantifier (escapeRegExp t @ cu CHR '')'' # rest) = Inr (None, escapeRegExp t @ cu CHR '')'' # rest)"
proof (cases t)
  case Nil
  then show ?thesis by (simp add: parseQuantifier_def cu_def)
next
  case (Cons c t')
  show ?thesis
  proof (cases "c \<in> set regExpChars")
    case True
    then show ?thesis using Cons by (simp add: escapeRegExp_Cons parseQuantifier_def cu_def)
  next
    case False
    then show ?thesis using Cons by (simp add: escapeRegExp_Cons parseQuantifier_def cu_def special_cases)
  qed
qed

lemma parseTerm_plain:
  assumes "c \<notin> set regExpChars" and "parseQuantifier r = Inr (None, r)"
  shows "parseTerm Legacy (Suc f) c r g = Inr (RChar c, r, g)"
  using assms by (simp add: special_cases parseSimpleTerm_def applyQuantifier_def cu_def)

lemma special_not_b: "c \<in> set regExpChars \<Longrightarrow> c \<noteq> cu CHR ''b'' \<and> c \<noteq> cu CHR ''B''"
  unfolding special_cases by (auto simp add: cu_def)

lemma special_identity_escape: "c \<in> set regExpChars \<Longrightarrow> parseCommonEscape c r = None"
  unfolding special_cases by (elim disjE; simp add: parseCommonEscape_def cu_def isDigit_def)

lemma parseTerm_special:
  assumes "c \<in> set regExpChars" and "parseQuantifier r = Inr (None, r)"
  shows "parseTerm Legacy (Suc f) 92 (c # r) g = Inr (RChar c, r, g)"
proof -
  have "parseSimpleTerm Legacy 92 (c # r) g = applyQuantifier (RChar c) r g"
    using special_not_b[OF assms(1)] special_identity_escape[OF assms(1)]
    by (simp add: parseSimpleTerm_def cu_def)
  then show ?thesis
    using assms(2) by (simp add: applyQuantifier_def cu_def)
qed

lemma parseAlternative_lits:
  "length t < f \<Longrightarrow>
   parseAlternative Legacy f (escapeRegExp t @ cu CHR '')'' # rest) g = Inr (lits t, cu CHR '')'' # rest, g)"
proof (induction t arbitrary: f)
  case Nil
  then obtain f' where "f = Suc f'" by (cases f) auto
  then show ?case by simp
next
  case (Cons c t)
  then obtain f' where f: "f = Suc f'" by (cases f) auto
  then obtain f'' where f': "f' = Suc f''" using Cons.prems by (cases f') auto
  have len: "length t < f'" using Cons.prems f by simp
  let ?r = "escapeRegExp t @ cu CHR '')'' # rest"
  have ih: "parseAlternative Legacy f' ?r g = Inr (lits t, cu CHR '')'' # rest, g)"
    using Cons.IH[OF len] .
  show ?case
  proof (cases "c \<in> set regExpChars")
    case True
    have "parseTerm Legacy f' 92 (c # ?r) g = Inr (RChar c, ?r, g)"
      unfolding f' by (rule parseTerm_special[OF True no_quantifier_after])
    then show ?thesis
      using True ih by (simp add: f escapeRegExp_Cons cu_def)
  next
    case False
    have "parseTerm Legacy f' c ?r g = Inr (RChar c, ?r, g)"
      unfolding f' by (rule parseTerm_plain[OF False no_quantifier_after])
    moreover have "c \<noteq> cu CHR ''|''" "c \<noteq> cu CHR '')''"
      using False by (auto simp add: special_cases cu_def)
    ultimately show ?thesis
      using False ih by (simp add: f escapeRegExp_Cons)
  qed
qed

lemma esc_head: "hd (escapeRegExp t @ cu CHR '')'' # rest) \<noteq> cu CHR ''?''"
proof (cases t)
  case Nil
  then show ?thesis by (simp add: cu_def)
next
  case (Cons c t')
  then show ?thesis by (cases "c \<in> set regExpChars") (auto simp add: escapeRegExp_Cons special_cases cu_def)
qed

lemma groupKind_capturing: "2 \<le> length r \<Longrightarrow> hd r \<noteq> cu CHR ''?'' \<Longrightarrow> groupKind r = Some (True, r)"
  by (cases r; cases "tl r") (auto simp add: groupKind_def)

lemma parseTerm_tokenPlus:
  assumes "length t + 1 < f" and "rest = [] \<or> hd rest \<noteq> cu CHR ''?''"
  shows "parseTerm Legacy (Suc f) (cu CHR ''('') (escapeRegExp t @ cu CHR '')'' # cu CHR ''+'' # rest) g
         = Inr (tokenPlus (Suc g) t, rest, Suc g)"
proof -
  let ?r = "escapeRegExp t @ cu CHR '')'' # cu CHR ''+'' # rest"
  obtain f1 where f: "f = Suc f1" and l1: "length t < f1" using assms(1) by (cases f) auto
  have gk: "groupKind ?r = Some (True, ?r)"
    by (rule groupKind_capturing) (simp_all add: esc_head)
  have pa: "parseAlternative Legacy f1 ?r (Suc g) = Inr (lits t, cu CHR '')'' # cu CHR ''+'' # rest, Suc g)"
    by (rule parseAlternative_lits[OF l1])
  have pd: "parseDisjunction Legacy f ?r (Suc g) = Inr (lits t, cu CHR '')'' # cu CHR ''+'' # rest, Suc g)"
  proof -
    have "cu CHR '')'' \<noteq> cu CHR ''|''" by (simp add: cu_def)
    then show ?thesis unfolding f by (simp add: pa)
  qed
  have pq: "parseQuantifier (cu CHR ''+'' # rest) = Inr (Some (1, None, True), rest)"
    using assms(2) by (cases rest) (auto simp add: parseQuantifier_def cu_def)
  show ?thesis
    by (simp add: gk pd closeGroup_def applyQuantifier_def pq tokenPlus_def)
qed

lemma cu_distinct:
  "cu CHR ''^'' \<noteq> cu CHR ''|''" "cu CHR ''^'' \<noteq> cu CHR '')''" "cu CHR ''^'' \<noteq> cu CHR ''(''"
  "cu CHR ''('' \<noteq> cu CHR ''|''" "cu CHR ''('' \<noteq> cu CHR '')''"
  "cu CHR ''$'' \<noteq> cu CHR ''|''" "cu CHR ''$'' \<noteq> cu CHR '')''" "cu CHR ''$'' \<noteq> cu CHR ''(''"
  "cu CHR ''$'' \<noteq> cu CHR ''^''" "cu CHR ''$'' \<noteq> cu CHR ''?''" "cu CHR ''|'' \<noteq> cu CHR ''?''"
  by (simp_all add: cu_def)

lemma parseAlternative_cons:
  assumes "c \<noteq> cu CHR ''|''" and "c \<noteq> cu CHR '')''"
    and "parseTerm Legacy f c r g = Inr (t, r1, g1)" and "parseAlternative Legacy f r1 g1 = Inr (a, r2, g2)"
  shows "parseAlternative Legacy (Suc f) (c # r) g = Inr (RSeq t a, r2, g2)"
  using assms by simp

lemma parseAlternative_stop:
  "s = [] \<or> hd s = cu CHR ''|'' \<Longrightarrow> parseAlternative Legacy (Suc f) s g = Inr (REmpty, s, g)"
  by (cases s) auto

lemma parseDisjunction_single:
  assumes "parseAlternative Legacy f s g = Inr (a, [], g1)"
  shows "parseDisjunction Legacy (Suc f) s g = Inr (a, [], g1)"
  using assms by simp

lemma parseDisjunction_alt:
  assumes "parseAlternative Legacy f s g = Inr (a, cu CHR ''|'' # r, g1)"
    and "parseDisjunction Legacy f r g1 = Inr (b, r2, g2)"
  shows "parseDisjunction Legacy (Suc f) s g = Inr (RAlt a b, r2, g2)"
  using assms by simp

lemma parseAlternative_start:
  assumes "length t + 4 < f" and "rest = [] \<or> hd rest = cu CHR ''|''"
  shows "parseAlternative Legacy f (cu CHR ''^'' # cu CHR ''('' # escapeRegExp t @ cu CHR '')'' # cu CHR ''+'' # rest) 0
         = Inr (startAst t, rest, Suc 0)"
proof -
  obtain f3 where f: "f = Suc (Suc (Suc f3))" and l3: "length t + 1 < f3"
    using assms(1) by (cases f; cases "f - 1"; cases "f - 2") auto
  have nq: "rest = [] \<or> hd rest \<noteq> cu CHR ''?''" using assms(2) cu_distinct by auto
  have t1: "parseTerm Legacy (Suc (Suc f3)) (cu CHR ''^'') r 0 = Inr (RBol, r, 0)" for r
    by (simp add: parseSimpleTerm_def cu_distinct)
  have t2: "parseTerm Legacy (Suc f3) (cu CHR ''('') (escapeRegExp t @ cu CHR '')'' # cu CHR ''+'' # rest) 0
            = Inr (tokenPlus (Suc 0) t, rest, Suc 0)"
    by (rule parseTerm_tokenPlus[OF l3 nq])
  have a2: "parseAlternative Legacy (Suc (Suc f3)) (cu CHR ''('' # escapeRegExp t @ cu CHR '')'' # cu CHR ''+'' # rest) 0
            = Inr (RSeq (tokenPlus (Suc 0) t) REmpty, rest, Suc 0)"
    by (rule parseAlternative_cons[OF _ _ t2 parseAlternative_stop[OF assms(2)]]) (simp_all add: cu_distinct)
  show ?thesis
    unfolding f startAst_def One_nat_def
    by (rule parseAlternative_cons[OF _ _ t1 a2]) (simp_all add: cu_distinct)
qed

lemma parseAlternative_end:
  assumes "length t + 4 < f"
  shows "parseAlternative Legacy f (cu CHR ''('' # escapeRegExp t @ cu CHR '')'' # cu CHR ''+'' # [cu CHR ''$'']) g
         = Inr (endAst (Suc g) t, [], Suc g)"
proof -
  obtain f3 where f: "f = Suc (Suc (Suc f3))" and l3: "length t + 1 < f3"
    using assms(1) by (cases f; cases "f - 1"; cases "f - 2") auto
  have l2: "length t + 1 < Suc f3" using l3 by simp
  have t1: "parseTerm Legacy (Suc (Suc f3)) (cu CHR ''('') (escapeRegExp t @ cu CHR '')'' # cu CHR ''+'' # [cu CHR ''$'']) g
            = Inr (tokenPlus (Suc g) t, [cu CHR ''$''], Suc g)"
    by (rule parseTerm_tokenPlus[OF l2]) (simp add: cu_distinct)
  have t2: "parseTerm Legacy (Suc f3) (cu CHR ''$'') [] (Suc g) = Inr (REol, [], Suc g)"
    by (simp add: parseSimpleTerm_def cu_distinct)
  have a3: "parseAlternative Legacy (Suc f3) [] (Suc g) = Inr (REmpty, [], Suc g)"
    by simp
  have a2: "parseAlternative Legacy (Suc (Suc f3)) [cu CHR ''$''] (Suc g) = Inr (RSeq REol REmpty, [], Suc g)"
    by (rule parseAlternative_cons[OF _ _ t2 a3]) (simp_all add: cu_distinct)
  show ?thesis
    unfolding f endAst_def
    by (rule parseAlternative_cons[OF _ _ t1 a2]) (simp_all add: cu_distinct)
qed

lemma escapeRegExp_length: "length t \<le> length (escapeRegExp t)"
  by (induction t) (auto simp add: escapeRegExp_Cons)

lemma fuel_enough: "a \<noteq> [] \<Longrightarrow> length t + 5 < 3 * length (a @ escapeRegExp t @ b) + 3"
  by (cases a; induction t) (auto simp add: escapeRegExp_Cons)

lemma parsePattern_start:
  "parsePattern Legacy (js ''^('' @ escapeRegExp t @ js '')+'') = Inr (startAst t, Suc 0)"
proof -
  let ?p = "js ''^('' @ escapeRegExp t @ js '')+''"
  define f where "f = 3 * length ?p + 2"
  have f: "3 * length ?p + 3 = Suc f" by (simp add: f_def)
  have l: "length t + 4 < f"
    using fuel_enough[of "js ''^(''" t "js '')+''"] by (simp add: f_def js_def)
  have p: "?p = cu CHR ''^'' # cu CHR ''('' # escapeRegExp t @ cu CHR '')'' # cu CHR ''+'' # []"
    by (simp add: js_def)
  have "parseDisjunction Legacy (Suc f) ?p 0 = Inr (startAst t, [], Suc 0)"
    unfolding p by (rule parseDisjunction_single, rule parseAlternative_start[OF l]) simp
  then show ?thesis
    unfolding parsePattern_def f by simp
qed

lemma parsePattern_end:
  "parsePattern Legacy (js ''('' @ escapeRegExp t @ js '')+$'') = Inr (endAst (Suc 0) t, Suc 0)"
proof -
  let ?p = "js ''('' @ escapeRegExp t @ js '')+$''"
  define f where "f = 3 * length ?p + 2"
  have f: "3 * length ?p + 3 = Suc f" by (simp add: f_def)
  have l: "length t + 4 < f"
    using fuel_enough[of "js ''(''" t "js '')+$''"] by (simp add: f_def js_def)
  have p: "?p = cu CHR ''('' # escapeRegExp t @ cu CHR '')'' # cu CHR ''+'' # [cu CHR ''$'']"
    by (simp add: js_def)
  have "parseDisjunction Legacy (Suc f) ?p 0 = Inr (endAst (Suc 0) t, [], Suc 0)"
    unfolding p by (rule parseDisjunction_single, rule parseAlternative_end[OF l])
  then show ?thesis
    unfolding parsePattern_def f by simp
qed

lemma parsePattern_both:
  "parsePattern Legacy (js ''^('' @ escapeRegExp t @ js '')+|('' @ escapeRegExp t @ js '')+$'')
   = Inr (bothAst t, Suc (Suc 0))"
proof -
  let ?p = "js ''^('' @ escapeRegExp t @ js '')+|('' @ escapeRegExp t @ js '')+$''"
  let ?e = "cu CHR ''('' # escapeRegExp t @ cu CHR '')'' # cu CHR ''+'' # [cu CHR ''$'']"
  define f where "f = 3 * length ?p + 1"
  have f: "3 * length ?p + 3 = Suc (Suc f)" by (simp add: f_def)
  have l: "length t + 4 < f"
    using escapeRegExp_length[of t] by (simp add: f_def js_def)
  have l': "length t + 4 < Suc f" using l by simp
  have p: "?p = cu CHR ''^'' # cu CHR ''('' # escapeRegExp t @ cu CHR '')'' # cu CHR ''+'' # cu CHR ''|'' # ?e"
    by (simp add: js_def)
  have a1: "parseAlternative Legacy (Suc f) (cu CHR ''^'' # cu CHR ''('' # escapeRegExp t @ cu CHR '')'' # cu CHR ''+'' # cu CHR ''|'' # ?e) 0
            = Inr (startAst t, cu CHR ''|'' # ?e, Suc 0)"
    by (rule parseAlternative_start[OF l']) simp
  have d2: "parseDisjunction Legacy (Suc f) ?e (Suc 0) = Inr (endAst (Suc (Suc 0)) t, [], Suc (Suc 0))"
    by (rule parseDisjunction_single, rule parseAlternative_end[OF l])
  have "parseDisjunction Legacy (Suc (Suc f)) ?p 0 = Inr (bothAst t, [], Suc (Suc 0))"
    unfolding p bothAst_def by (rule parseDisjunction_alt[OF a1 d2])
  then show ?thesis
    unfolding parsePattern_def f by simp
qed

text \<open>The copies of a token at the start and at the end of a text.\<close>

lemma tokenCount_step:
  "t \<noteq> [] \<Longrightarrow> take (length t) s = t \<Longrightarrow> tokenCount t s = Suc (tokenCount t (drop (length t) s))"
  by (subst tokenCount.simps) simp

lemma tokenCount_zero:
  "\<not> (t \<noteq> [] \<and> take (length t) s = t) \<Longrightarrow> tokenCount t s = 0"
  by (subst tokenCount.simps) simp

lemma tokenCount_length: "tokenCount t s * length t \<le> length s"
proof (induction t s rule: tokenCount.induct)
  case (1 t s)
  show ?case
  proof (cases "t \<noteq> [] \<and> take (length t) s = t")
    case True
    then have "length (take (length t) s) = length t" by simp
    then have le: "length t \<le> length s" by simp
    have "tokenCount t (drop (length t) s) * length t \<le> length s - length t"
      using 1[OF True] by simp
    then show ?thesis using True le by (simp add: tokenCount_step)
  next
    case False
    then show ?thesis by (simp add: tokenCount_zero)
  qed
qed

lemma tokenCount_prefix:
  "take (tokenCount t s * length t) s = concat (replicate (tokenCount t s) t)"
proof (induction t s rule: tokenCount.induct)
  case (1 t s)
  show ?case
  proof (cases "t \<noteq> [] \<and> take (length t) s = t")
    case True
    have "take (length t + tokenCount t (drop (length t) s) * length t) s
          = take (length t) s @ take (tokenCount t (drop (length t) s) * length t) (drop (length t) s)"
      by (rule take_add)
    then show ?thesis using True 1[OF True] by (simp add: tokenCount_step)
  next
    case False
    then show ?thesis by (simp add: tokenCount_zero)
  qed
qed

lemma stripStart_count: "stripStart t s = drop (tokenCount t s * length t) s"
proof (induction t s rule: tokenCount.induct)
  case (1 t s)
  show ?case
  proof (cases "t \<noteq> [] \<and> take (length t) s = t")
    case True
    have "stripStart t s = stripStart t (drop (length t) s)"
      using True by (subst stripStart.simps) simp
    then show ?thesis using True 1[OF True] by (simp add: tokenCount_step add.commute)
  next
    case False
    then have "stripStart t s = s" by (subst stripStart.simps) auto
    then show ?thesis using False by (simp add: tokenCount_zero)
  qed
qed

lemma stripEnd_count: "stripEnd t s = take (length s - tokenCount (rev t) (rev s) * length t) s"
  by (simp add: stripEnd_def stripStart_count rev_drop)

lemma tokenCount_copies: "t \<noteq> [] \<Longrightarrow> k \<le> tokenCount t (concat (replicate k t) @ r)"
proof (induction k)
  case 0
  then show ?case by simp
next
  case (Suc k)
  have "tokenCount t (t @ concat (replicate k t) @ r) = Suc (tokenCount t (concat (replicate k t) @ r))"
    using Suc.prems by (subst tokenCount_step) simp_all
  then show ?case using Suc by simp
qed

lemma rev_copies: "rev (concat (replicate k t)) = concat (replicate k (rev t))"
  by (simp add: rev_concat)

lemma tail_bound:
  assumes "t \<noteq> []" and "i \<le> length s" and "tokenCount t (drop i s) * length t = length s - i"
  shows "length s - i \<le> tokenCount (rev t) (rev s) * length t"
proof -
  let ?u = "drop i s"
  let ?j = "tokenCount t ?u"
  have "take (?j * length t) ?u = concat (replicate ?j t)" by (rule tokenCount_prefix)
  then have u: "?u = concat (replicate ?j t)" using assms(2,3) by simp
  have "rev s = rev ?u @ rev (take i s)"
    by (metis append_take_drop_id rev_append)
  then have "rev s = concat (replicate ?j (rev t)) @ rev (take i s)"
    using u by (metis rev_copies)
  then have "?j \<le> tokenCount (rev t) (rev s)"
    using tokenCount_copies[of "rev t" ?j "rev (take i s)"] assms(1) by simp
  then have "?j * length t \<le> tokenCount (rev t) (rev s) * length t" by simp
  then show ?thesis using assms(3) by simp
qed

lemma tail_count:
  assumes "t \<noteq> []"
  shows "tokenCount t (drop (length s - tokenCount (rev t) (rev s) * length t) s) = tokenCount (rev t) (rev s)"
proof -
  let ?m = "tokenCount (rev t) (rev s)"
  have le: "?m * length t \<le> length s" using tokenCount_length[of "rev t" "rev s"] by simp
  have "take (?m * length t) (rev s) = concat (replicate ?m (rev t))"
    using tokenCount_prefix[of "rev t" "rev s"] by simp
  then have "rev (take (?m * length t) (rev s)) = concat (replicate ?m t)"
    by (simp add: rev_copies)
  then have d: "drop (length s - ?m * length t) s = concat (replicate ?m t)"
    by (simp add: rev_take)
  have "?m \<le> tokenCount t (concat (replicate ?m t) @ [])"
    by (rule tokenCount_copies[OF assms])
  then have ge: "?m \<le> tokenCount t (drop (length s - ?m * length t) s)" using d by simp
  have "tokenCount t (drop (length s - ?m * length t) s) * length t \<le> length (drop (length s - ?m * length t) s)"
    by (rule tokenCount_length)
  then have "tokenCount t (drop (length s - ?m * length t) s) * length t \<le> ?m * length t"
    using le by simp
  then have "tokenCount t (drop (length s - ?m * length t) s) \<le> ?m" using assms by simp
  then show ?thesis using ge by simp
qed

text \<open>How the repeated group matches: greedily, one copy of the token at a time.\<close>

lemma tokenAt_Cons:
  "tokenAt (c # t) s p \<longleftrightarrow> p < length s \<and> s ! p = c \<and> tokenAt t s (Suc p)"
proof (cases "p < length s")
  case True
  then have "drop p s = s ! p # drop (Suc p) s" by (simp add: Cons_nth_drop_Suc)
  then show ?thesis using True by (simp add: tokenAt_def)
next
  case False
  then show ?thesis by (simp add: tokenAt_def)
qed

lemma tokenAt_length: "tokenAt t s p \<Longrightarrow> t \<noteq> [] \<Longrightarrow> p + length t \<le> length s"
proof -
  assume a: "tokenAt t s p" and b: "t \<noteq> []"
  have "length (take (length t) (drop p s)) = length t" using a by (simp add: tokenAt_def)
  then show ?thesis using b by (cases "p \<le> length s") auto
qed

lemma lits_match:
  assumes "\<not> ignoreCase E"
  shows "rx_match E (lits t) n k (p, cs)
         = (if tokenAt t (input E) p then k (p + length t, cs) else None)"
proof (induction t arbitrary: p n)
  case Nil
  show ?case by (simp add: rx_match.simps(1) tokenAt_def)
next
  case (Cons c t)
  show ?case
    by (simp add: rx_match.simps(2,8) canonicalize_def assms Cons.IH tokenAt_Cons)
qed

lemma groupIndices_lits: "groupIndices (lits t) = []"
  by (induction t) simp_all

lemma maxMin_lits: "maxMin (lits t) = 0"
  by (induction t) simp_all

lemma group_match:
  assumes "\<not> ignoreCase E"
  shows "rx_match E (RGroup g (lits t)) n k (p, cs)
         = (if tokenAt t (input E) p then k (p + length t, cs[g - 1 := Some (p, p + length t)]) else None)"
  by (simp add: rx_match.simps(7) lits_match[OF assms])

lemma star_step_token:
  assumes "\<not> ignoreCase E" and "t \<noteq> []" and "tokenAt t (input E) p"
  shows "rx_match E (tokenStar g t) (Suc n) k (p, cs)
         = (case rx_match E (tokenStar g t) n k (p + length t, cs[g - 1 := Some (p, p + length t)]) of
              Some z \<Rightarrow> Some z | None \<Rightarrow> k (p, cs))"
  unfolding tokenStar_def
  by (subst star_greedy_unfold) (simp add: group_match[OF assms(1)] assms(2,3) groupIndices_lits)

lemma star_step_none:
  assumes "\<not> ignoreCase E" and "\<not> tokenAt t (input E) p"
  shows "rx_match E (tokenStar g t) n k (p, cs) = k (p, cs)"
  unfolding tokenStar_def
  by (subst star_greedy_unfold) (simp add: group_match[OF assms(1)] assms(2) groupIndices_lits)

lemma plus_step:
  assumes "\<not> ignoreCase E"
  shows "rx_match E (tokenPlus g t) (Suc n) k (p, cs)
         = (if tokenAt t (input E) p
            then rx_match E (tokenStar g t) n k (p + length t, cs[g - 1 := Some (p, p + length t)])
            else None)"
  unfolding tokenStar_def tokenPlus_def
  by (subst rx_match.simps(10)) (simp add: Let_def group_match[OF assms] groupIndices_lits)

lemma tokenCount_at:
  "t \<noteq> [] \<Longrightarrow> tokenAt t s p \<Longrightarrow> tokenCount t (drop p s) = Suc (tokenCount t (drop (p + length t) s))"
  by (subst tokenCount_step) (simp_all add: tokenAt_def add.commute)

lemma tokenCount_not_at:
  "\<not> tokenAt t s p \<Longrightarrow> tokenCount t (drop p s) = 0"
  by (rule tokenCount_zero) (simp add: tokenAt_def)

lemma star_all:
  assumes "\<not> ignoreCase E" and "t \<noteq> []" and "\<And>q c. k (q, c) = Some (q, c)"
  shows "length (input E) - p \<le> n \<Longrightarrow>
         \<exists>cs'. rx_match E (tokenStar g t) n k (p, cs)
                = Some (p + tokenCount t (drop p (input E)) * length t, cs')"
proof (induction "length (input E) - p" arbitrary: p n cs rule: less_induct)
  case less
  show ?case
  proof (cases "tokenAt t (input E) p")
    case True
    have le: "p + length t \<le> length (input E)" by (rule tokenAt_length[OF True assms(2)])
    have pos: "0 < length t" using assms(2) by simp
    obtain n' where n: "n = Suc n'" using less.prems le pos by (cases n) auto
    have d1: "length (input E) - (p + length t) < length (input E) - p" using le pos by linarith
    have d2: "length (input E) - (p + length t) \<le> n'" using less.prems le pos n by linarith
    have "\<exists>cs'. rx_match E (tokenStar g t) n' k (p + length t, cs[g - 1 := Some (p, p + length t)])
                = Some (p + length t + tokenCount t (drop (p + length t) (input E)) * length t, cs')"
      by (rule less.hyps[OF d1 d2])
    then obtain cs' where
      "rx_match E (tokenStar g t) n' k (p + length t, cs[g - 1 := Some (p, p + length t)])
       = Some (p + length t + tokenCount t (drop (p + length t) (input E)) * length t, cs')" ..
    then show ?thesis
      unfolding n by (simp add: star_step_token[OF assms(1,2) True] tokenCount_at[OF assms(2) True])
  next
    case False
    then show ?thesis
      by (simp add: star_step_none[OF assms(1) False] tokenCount_not_at assms(3))
  qed
qed

lemma star_end:
  assumes "\<not> ignoreCase E" and "t \<noteq> []"
    and "\<And>q c. k (q, c) = (if q = length (input E) then Some (q, c) else None)"
  shows "p \<le> length (input E) \<Longrightarrow> length (input E) - p \<le> n \<Longrightarrow>
         map_option fst (rx_match E (tokenStar g t) n k (p, cs))
         = (if p + tokenCount t (drop p (input E)) * length t = length (input E)
            then Some (length (input E)) else None)"
proof (induction "length (input E) - p" arbitrary: p n cs rule: less_induct)
  case less
  show ?case
  proof (cases "tokenAt t (input E) p")
    case True
    have le: "p + length t \<le> length (input E)" by (rule tokenAt_length[OF True assms(2)])
    have pos: "0 < length t" using assms(2) by simp
    obtain n' where n: "n = Suc n'" using less.prems le pos by (cases n) auto
    have d1: "length (input E) - (p + length t) < length (input E) - p" using le pos by linarith
    have d2: "length (input E) - (p + length t) \<le> n'" using less.prems le pos n by linarith
    have ih: "map_option fst (rx_match E (tokenStar g t) n' k (p + length t, cs[g - 1 := Some (p, p + length t)]))
              = (if p + length t + tokenCount t (drop (p + length t) (input E)) * length t = length (input E)
                 then Some (length (input E)) else None)"
      by (rule less.hyps[OF d1 le d2])
    have "p \<noteq> length (input E)" using le pos by linarith
    then have kp: "k (p, cs) = None" by (simp add: assms(3))
    have "rx_match E (tokenStar g t) n k (p, cs)
          = rx_match E (tokenStar g t) n' k (p + length t, cs[g - 1 := Some (p, p + length t)])"
      unfolding n by (simp add: star_step_token[OF assms(1,2) True] kp split: option.splits)
    moreover have "p + tokenCount t (drop p (input E)) * length t
                   = p + length t + tokenCount t (drop (p + length t) (input E)) * length t"
      by (simp add: tokenCount_at[OF assms(2) True])
    ultimately show ?thesis using ih by simp
  next
    case False
    then show ?thesis
      using less.prems by (simp add: star_step_none[OF assms(1) False] tokenCount_not_at assms(3))
  qed
qed

lemma new_RegExp_global:
  "parsePattern Legacy p = Inr (a, g) \<Longrightarrow> new_RegExp p (js ''g'') = Inr (trimRegExp a g)"
  by (simp add: new_RegExp_def js_def trimRegExp_def cu_def)

lemma plus_all:
  assumes "\<not> ignoreCase E" and "t \<noteq> []" and "\<And>q c. k (q, c) = Some (q, c)"
    and "tokenAt t (input E) p" and "length (input E) - p \<le> n"
  shows "\<exists>cs'. rx_match E (tokenPlus g t) n k (p, cs)
                = Some (p + tokenCount t (drop p (input E)) * length t, cs')"
proof -
  have le: "p + length t \<le> length (input E)" by (rule tokenAt_length[OF assms(4,2)])
  have pos: "0 < length t" using assms(2) by simp
  obtain n' where n: "n = Suc n'" using assms(5) le pos by (cases n) auto
  have d: "length (input E) - (p + length t) \<le> n'" using assms(5) le pos n by linarith
  obtain cs' where
    "rx_match E (tokenStar g t) n' k (p + length t, cs[g - 1 := Some (p, p + length t)])
     = Some (p + length t + tokenCount t (drop (p + length t) (input E)) * length t, cs')"
    using star_all[OF assms(1,2,3) d] by blast
  then show ?thesis
    unfolding n by (simp add: plus_step[OF assms(1)] assms(4) tokenCount_at[OF assms(2,4)])
qed

lemma plus_none:
  assumes "\<not> ignoreCase E" and "\<not> tokenAt t (input E) p"
  shows "rx_match E (tokenPlus g t) (Suc n) k (p, cs) = None"
  by (simp add: plus_step[OF assms(1)] assms(2))

lemma plus_end:
  assumes "\<not> ignoreCase E" and "t \<noteq> []"
    and "\<And>q c. k (q, c) = (if q = length (input E) then Some (q, c) else None)"
    and "p \<le> length (input E)" and "length (input E) - p \<le> n"
  shows "map_option fst (rx_match E (tokenPlus g t) (Suc n) k (p, cs))
         = (if tailTokens t (input E) p then Some (length (input E)) else None)"
proof (cases "tokenAt t (input E) p")
  case True
  have le: "p + length t \<le> length (input E)" by (rule tokenAt_length[OF True assms(2)])
  have d: "length (input E) - (p + length t) \<le> n" using assms(5) by linarith
  have "map_option fst (rx_match E (tokenStar g t) n k (p + length t, cs[g - 1 := Some (p, p + length t)]))
        = (if p + length t + tokenCount t (drop (p + length t) (input E)) * length t = length (input E)
           then Some (length (input E)) else None)"
    by (rule star_end[OF assms(1,2,3) le d])
  then show ?thesis
    by (simp add: plus_step[OF assms(1)] True tailTokens_def tokenCount_at[OF assms(2) True])
next
  case False
  then show ?thesis
    by (simp add: plus_step[OF assms(1)] tailTokens_def tokenCount_not_at)
qed

lemma start_some:
  assumes "\<not> ignoreCase E" and "t \<noteq> []" and "tokenAt t (input E) 0"
    and "budget E = Suc b" and "length (input E) \<le> b"
  shows "\<exists>cs'. rx_match E (startAst t) n Some (0, cs)
                = Some (tokenCount t (input E) * length t, cs')"
proof -
  have "length (input E) - 0 \<le> budget E" using assms(4,5) by simp
  then obtain cs' where
    "rx_match E (tokenPlus (Suc 0) t) (budget E) Some (0, cs)
     = Some (0 + tokenCount t (drop 0 (input E)) * length t, cs')"
    using plus_all[OF assms(1,2) _ assms(3), of Some "budget E" "Suc 0" cs] by auto
  then show ?thesis
    by (simp add: startAst_def rx_match.simps(1,5,8) rx_empty_eta)
qed

lemma start_none:
  assumes "\<not> ignoreCase E" and "\<not> multiline E" and "\<not> tokenAt t (input E) 0 \<or> 0 < i"
    and "budget E = Suc b"
  shows "rx_match E (startAst t) n Some (i, cs) = None"
proof (cases "0 < i")
  case True
  then show ?thesis by (simp add: startAst_def rx_match.simps(5,8) assms(2))
next
  case False
  then have "\<not> tokenAt t (input E) i" using assms(3) by simp
  then show ?thesis
    by (simp add: startAst_def rx_match.simps(1,5,8) assms(4) plus_none[OF assms(1)])
qed

lemma end_match:
  assumes "\<not> ignoreCase E" and "\<not> multiline E" and "t \<noteq> []"
    and "budget E = Suc b" and "length (input E) \<le> b" and "i \<le> length (input E)"
  shows "map_option fst (rx_match E (endAst g t) n Some (i, cs))
         = (if tailTokens t (input E) i then Some (length (input E)) else None)"
proof -
  let ?k = "rx_match E (RSeq REol REmpty) (Suc b) Some"
  have k: "?k (q, c) = (if q = length (input E) then Some (q, c) else None)" for q c
    by (simp add: rx_match.simps(1,6,8) assms(2))
  have d: "length (input E) - i \<le> b" using assms(5) by simp
  have e: "rx_match E (endAst g t) n Some (i, cs) = rx_match E (tokenPlus g t) (Suc b) ?k (i, cs)"
    by (simp only: endAst_def rx_match.simps(8) assms(4))
  show ?thesis
    unfolding e by (rule plus_end[OF assms(1,3) k assms(6) d])
qed

text \<open>The matches of the three expressions at an index of the text.\<close>

lemma trim_env:
  "ignoreCase (rx_env_of (trimRegExp a g) s) = False"
  "multiline (rx_env_of (trimRegExp a g) s) = False"
  "input (rx_env_of (trimRegExp a g) s) = s"
  "budget (rx_env_of (trimRegExp a g) s) = Suc (length s + maxMin a)"
  by (simp_all add: rx_env_of_def trimRegExp_def)

lemma trimRegExp_sel:
  "rx_ast (trimRegExp a g) = a" "rx_groups (trimRegExp a g) = g" "rx_global (trimRegExp a g)"
  "\<not> rx_ignoreCase (trimRegExp a g)" "\<not> rx_sticky (trimRegExp a g)" "\<not> rx_unicode (trimRegExp a g)"
  by (simp_all add: trimRegExp_def)

lemma matchAt_start_some:
  assumes "t \<noteq> []" and "tokenAt t s 0"
  shows "\<exists>cs. matchAt (trimRegExp (startAst t) g) s 0 = Some (tokenCount t s * length t, cs)"
  unfolding matchAt_def trimRegExp_sel
  using start_some[of "rx_env_of (trimRegExp (startAst t) g) s" t "length s + maxMin (startAst t)"]
        assms
  by (simp add: trim_env)

lemma matchAt_start_none:
  assumes "\<not> tokenAt t s 0 \<or> 0 < i"
  shows "matchAt (trimRegExp (startAst t) g) s i = None"
  unfolding matchAt_def trimRegExp_sel
  by (rule start_none[where b = "length s + maxMin (startAst t)"])
     (use assms in \<open>auto simp add: trim_env\<close>)

lemma matchAt_end:
  assumes "t \<noteq> []" and "i \<le> length s"
  shows "map_option fst (matchAt (trimRegExp (endAst g' t) g) s i)
         = (if tailTokens t s i then Some (length s) else None)"
  unfolding matchAt_def trimRegExp_sel
  using end_match[of "rx_env_of (trimRegExp (endAst g' t) g) s" t "length s + maxMin (endAst g' t)" i]
        assms
  by (simp add: trim_env)

lemma both_alt:
  "rx_match E (bothAst t) n k x
   = (case rx_match E (startAst t) (budget E) k x of
        Some z \<Rightarrow> Some z
      | None \<Rightarrow> rx_match E (endAst (Suc (Suc 0)) t) (budget E) k x)"
  by (simp add: bothAst_def rx_match.simps(9))

lemma matchAt_both_some:
  assumes "t \<noteq> []" and "tokenAt t s 0"
  shows "\<exists>cs. matchAt (trimRegExp (bothAst t) g) s 0 = Some (tokenCount t s * length t, cs)"
proof -
  let ?E = "rx_env_of (trimRegExp (bothAst t) g) s"
  obtain cs where
    "rx_match ?E (startAst t) (budget ?E) Some (0, replicate g None) = Some (tokenCount t s * length t, cs)"
    using start_some[of ?E t "length s + maxMin (bothAst t)" "budget ?E" "replicate g None"] assms
    by (auto simp add: trim_env)
  then show ?thesis
    unfolding matchAt_def trimRegExp_sel both_alt by simp
qed

lemma matchAt_both_tail:
  assumes "t \<noteq> []" and "\<not> tokenAt t s 0 \<or> 0 < i" and "i \<le> length s"
  shows "map_option fst (matchAt (trimRegExp (bothAst t) g) s i)
         = (if tailTokens t s i then Some (length s) else None)"
proof -
  let ?E = "rx_env_of (trimRegExp (bothAst t) g) s"
  have a: "rx_match ?E (startAst t) (budget ?E) Some (i, replicate g None) = None"
    by (rule start_none[where b = "length s + maxMin (bothAst t)"])
       (use assms in \<open>auto simp add: trim_env\<close>)
  have b: "map_option fst (rx_match ?E (endAst (Suc (Suc 0)) t) (budget ?E) Some (i, replicate g None))
           = (if tailTokens t s i then Some (length s) else None)"
    using end_match[of ?E t "length s + maxMin (bothAst t)" i "Suc (Suc 0)" "budget ?E" "replicate g None"]
          assms
    by (simp add: trim_env)
  show ?thesis
    unfolding matchAt_def trimRegExp_sel both_alt a using b by simp
qed

lemma firstMatch_found:
  "a \<le> i0 \<Longrightarrow> i0 < b \<Longrightarrow> (\<And>i. a \<le> i \<Longrightarrow> i < i0 \<Longrightarrow> matchAt R s i = None) \<Longrightarrow>
   matchAt R s i0 = Some (e, cs) \<Longrightarrow> firstMatch R s [a ..< b] = Some (i0, e, cs)"
proof (induction "i0 - a" arbitrary: a)
  case 0
  then have "a = i0" by simp
  then have "[a ..< b] = i0 # [Suc i0 ..< b]" using 0 by (simp add: upt_conv_Cons)
  then show ?case using 0 by simp
next
  case (Suc m)
  then have lt: "a < i0" by simp
  then have u: "[a ..< b] = a # [Suc a ..< b]" using Suc.prems by (simp add: upt_conv_Cons)
  have n: "matchAt R s a = None" using Suc.prems(3)[of a] lt by simp
  have "firstMatch R s [Suc a ..< b] = Some (i0, e, cs)"
    by (rule Suc.hyps(1)) (use Suc.hyps(2) Suc.prems lt in auto)
  then show ?case unfolding u by (simp add: n)
qed

text \<open>The search for the first index from which only copies of the token follow.\<close>

lemma tailTokens_end: "t \<noteq> [] \<Longrightarrow> \<not> tailTokens t s (length s)"
  by (simp add: tailTokens_def tokenCount_zero)

lemma tailTokens_bound:
  assumes "t \<noteq> []" and "a \<le> i" and "i \<le> length s" and "tailTokens t s i"
  shows "length s - tokenCount (rev t) (rev (drop a s)) * length t \<le> i"
proof -
  let ?r = "drop a s"
  have dr: "drop (i - a) ?r = drop i s" using assms(2) by simp
  have "tokenCount t (drop i s) * length t = length s - i"
    using assms(4) unfolding tailTokens_def by linarith
  then have "tokenCount t (drop (i - a) ?r) * length t = length ?r - (i - a)"
    unfolding dr using assms(2,3) by simp
  moreover have "i - a \<le> length ?r" using assms(2,3) by simp
  ultimately have "length ?r - (i - a) \<le> tokenCount (rev t) (rev ?r) * length t"
    using tail_bound[OF assms(1), of "i - a" ?r] by blast
  then show ?thesis using assms(2,3) by simp
qed

lemma tailTokens_first:
  assumes "t \<noteq> []" and "a \<le> length s" and "0 < tokenCount (rev t) (rev (drop a s))"
  shows "tailTokens t s (length s - tokenCount (rev t) (rev (drop a s)) * length t)"
    and "a \<le> length s - tokenCount (rev t) (rev (drop a s)) * length t"
    and "length s - tokenCount (rev t) (rev (drop a s)) * length t < length s"
proof -
  let ?r = "drop a s"
  let ?m = "tokenCount (rev t) (rev ?r)"
  have le: "?m * length t \<le> length s - a" using tokenCount_length[of "rev t" "rev ?r"] by simp
  have pos: "0 < ?m * length t" using assms(1,3) by simp
  have "tokenCount t (drop (length ?r - ?m * length t) ?r) = ?m" by (rule tail_count[OF assms(1)])
  moreover have "drop (length ?r - ?m * length t) ?r = drop (length s - ?m * length t) s"
    using le assms(2) by simp
  ultimately have c: "tokenCount t (drop (length s - ?m * length t) s) = ?m" by simp
  show "tailTokens t s (length s - ?m * length t)"
    unfolding tailTokens_def c using assms(3) le by simp
  show "a \<le> length s - ?m * length t" using le assms(2) by linarith
  show "length s - ?m * length t < length s" using le pos assms(2) by linarith
qed

lemma tail_exec_none:
  assumes "\<And>i. a \<le> i \<Longrightarrow> i \<le> length s \<Longrightarrow>
             map_option fst (matchAt (trimRegExp ast g) s i) = (if tailTokens t s i then Some (length s) else None)"
    and "t \<noteq> []" and "tokenCount (rev t) (rev (drop a s)) = 0"
  shows "regExpExec (trimRegExp ast g) s a = None"
  unfolding regExpExec_plain[OF trimRegExp_sel(5)]
proof (rule firstMatch_none, rule ballI)
  fix i assume "i \<in> set [a ..< Suc (length s)]"
  then have i: "a \<le> i" "i \<le> length s" by auto
  have "\<not> tailTokens t s i"
  proof
    assume tt: "tailTokens t s i"
    have "length s - tokenCount (rev t) (rev (drop a s)) * length t \<le> i"
      by (rule tailTokens_bound[OF assms(2) i tt])
    then have "i = length s" using i assms(3) by simp
    then show False using tt tailTokens_end[OF assms(2)] by simp
  qed
  then show "matchAt (trimRegExp ast g) s i = None" using assms(1)[OF i] by simp
qed

lemma tail_exec_some:
  assumes "\<And>i. a \<le> i \<Longrightarrow> i \<le> length s \<Longrightarrow>
             map_option fst (matchAt (trimRegExp ast g) s i) = (if tailTokens t s i then Some (length s) else None)"
    and "t \<noteq> []" and "a \<le> length s" and "0 < tokenCount (rev t) (rev (drop a s))"
  shows "\<exists>cs. regExpExec (trimRegExp ast g) s a
              = Some (length s - tokenCount (rev t) (rev (drop a s)) * length t, length s, cs)"
proof -
  let ?i0 = "length s - tokenCount (rev t) (rev (drop a s)) * length t"
  note f = tailTokens_first[OF assms(2,3,4)]
  have "map_option fst (matchAt (trimRegExp ast g) s ?i0) = Some (length s)"
    using assms(1)[of ?i0] f by simp
  then obtain cs where m: "matchAt (trimRegExp ast g) s ?i0 = Some (length s, cs)" by auto
  have before: "matchAt (trimRegExp ast g) s i = None" if i1: "a \<le> i" and i2: "i < ?i0" for i
  proof -
    have il: "i \<le> length s" using i2 by simp
    have "\<not> tailTokens t s i"
      using tailTokens_bound[OF assms(2) i1 il] i2 by auto
    then show ?thesis using assms(1)[OF i1 il] by simp
  qed
  have "firstMatch (trimRegExp ast g) s [a ..< Suc (length s)] = Some (?i0, length s, cs)"
    by (rule firstMatch_found[OF f(2) _ before m]) (use f(3) in simp_all)
  then show ?thesis unfolding regExpExec_plain[OF trimRegExp_sel(5)] by blast
qed

lemma tail_assemble:
  assumes "\<And>i. a \<le> i \<Longrightarrow> i \<le> length s \<Longrightarrow>
             map_option fst (matchAt (trimRegExp ast g) s i) = (if tailTokens t s i then Some (length s) else None)"
    and "t \<noteq> []" and "a \<le> length s"
  shows "assemble s (\<lambda>x. []) (allMatches (Suc (Suc f)) (trimRegExp ast g) s a) a = stripEnd t (drop a s)"
proof (cases "tokenCount (rev t) (rev (drop a s)) = 0")
  case True
  have "regExpExec (trimRegExp ast g) s a = None" by (rule tail_exec_none[OF assms(1,2) True])
  then show ?thesis by (simp add: stripEnd_count True)
next
  case False
  let ?m = "tokenCount (rev t) (rev (drop a s))"
  let ?i0 = "length s - ?m * length t"
  have pos: "0 < ?m" using False by simp
  note f = tailTokens_first[OF assms(2,3) pos]
  obtain cs where e: "regExpExec (trimRegExp ast g) s a = Some (?i0, length s, cs)"
    using tail_exec_some[OF assms(1,2,3) pos] by blast
  have "matchAt (trimRegExp ast g) s (length s) = None"
    using assms(1)[of "length s"] assms(3) tailTokens_end[OF assms(2)] by simp
  then have e2: "regExpExec (trimRegExp ast g) s (length s) = None"
    by (simp add: regExpExec_plain[OF trimRegExp_sel(5)])
  have ne: "length s \<noteq> ?i0" using f(3) by simp
  have "allMatches (Suc (Suc f)) (trimRegExp ast g) s a = [(?i0, length s, cs)]"
    using ne by (simp add: e e2)
  moreover have "length s - a - ?m * length t = ?i0 - a" by simp
  ultimately show ?thesis using f(2) by (simp add: stripEnd_count)
qed

text \<open>The replacement of every match by the empty string, for a token that is not empty.\<close>

lemma replace_empty:
  "js_replace_regexp s (trimRegExp a g) []
   = Inr (assemble s (\<lambda>x. []) (allMatches (Suc (Suc (length s))) (trimRegExp a g) s 0) 0)"
proof -
  have "(\<lambda>(i, e, cs). getSubstitution (take (e - i) (drop i s)) s i (captureTexts s g cs) [])
        = (\<lambda>x. [])"
    by (rule ext) (simp add: split_def)
  then show ?thesis
    by (simp add: js_replace_regexp_def js_replace_fn_def trimRegExp_sel regexMatches_def)
qed

lemma stripStart_none: "\<not> tokenAt t s 0 \<Longrightarrow> stripStart t s = s"
  using tokenCount_not_at[of t s 0] by (simp add: stripStart_count)

lemma lead_matches:
  assumes "t \<noteq> []" and "tokenAt t s 0"
    and "\<exists>cs. matchAt (trimRegExp ast g) s 0 = Some (tokenCount t s * length t, cs)"
  shows "\<exists>cs f. length s = Suc f
            \<and> allMatches (Suc (Suc (length s))) (trimRegExp ast g) s 0
              = (0, tokenCount t s * length t, cs) # allMatches (Suc (Suc f)) (trimRegExp ast g) s (tokenCount t s * length t)"
    and "0 < tokenCount t s * length t" and "tokenCount t s * length t \<le> length s"
proof -
  let ?e = "tokenCount t s * length t"
  have c: "tokenCount t s = Suc (tokenCount t (drop (0 + length t) s))"
    using tokenCount_at[OF assms(1,2)] by simp
  show pos: "0 < ?e" using assms(1) c by simp
  show le: "?e \<le> length s" by (rule tokenCount_length)
  obtain f where f: "length s = Suc f" using pos le by (cases "length s") auto
  obtain cs where m: "matchAt (trimRegExp ast g) s 0 = Some (?e, cs)" using assms(3) by blast
  have "firstMatch (trimRegExp ast g) s [0 ..< Suc (length s)] = Some (0, ?e, cs)"
    by (rule firstMatch_found[OF _ _ _ m]) simp_all
  then have "regExpExec (trimRegExp ast g) s 0 = Some (0, ?e, cs)" by (simp add: regExpExec_plain[OF trimRegExp_sel(5)])
  then have "allMatches (Suc (Suc (length s))) (trimRegExp ast g) s 0
             = (0, ?e, cs) # allMatches (Suc (Suc f)) (trimRegExp ast g) s ?e"
    using pos f by simp
  then show "\<exists>cs f. length s = Suc f
            \<and> allMatches (Suc (Suc (length s))) (trimRegExp ast g) s 0 = (0, ?e, cs) # allMatches (Suc (Suc f)) (trimRegExp ast g) s ?e"
    using f by blast
qed

lemma charsTrimEnd_unit:
  assumes "t \<noteq> []" and "t \<noteq> js '' ''"
  shows "charsTrimEnd s t = Inr (stripEnd t s)"
proof -
  let ?R = "trimRegExp (endAst (Suc 0) t) (Suc 0)"
  have "assemble s (\<lambda>x. []) (allMatches (Suc (Suc (length s))) ?R s 0) 0 = stripEnd t (drop 0 s)"
    by (rule tail_assemble[OF matchAt_end[OF assms(1)] assms(1)]) simp_all
  then show ?thesis
    by (simp add: charsTrimEnd_def assms(2) new_RegExp_global[OF parsePattern_end] bind_def replace_empty)
qed

lemma charsTrimStart_unit:
  assumes "t \<noteq> []" and "t \<noteq> js '' ''"
  shows "charsTrimStart s t = Inr (stripStart t s)"
proof -
  let ?R = "trimRegExp (startAst t) (Suc 0)"
  have "assemble s (\<lambda>x. []) (allMatches (Suc (Suc (length s))) ?R s 0) 0 = stripStart t s"
  proof (cases "tokenAt t s 0")
    case True
    let ?e = "tokenCount t s * length t"
    note l = lead_matches[OF assms(1) True matchAt_start_some[OF assms(1) True, of "Suc 0"]]
    obtain cs f where f: "length s = Suc f"
      and a: "allMatches (Suc (Suc (length s))) ?R s 0 = (0, ?e, cs) # allMatches (Suc (Suc f)) ?R s ?e"
      using l(1) by blast
    have none: "matchAt ?R s j = None" if "?e \<le> j" for j
    proof -
      have "0 < j" using that l(2) by linarith
      then show ?thesis by (simp add: matchAt_start_none)
    qed
    have "regExpExec ?R s ?e = None"
      unfolding regExpExec_plain[OF trimRegExp_sel(5)] by (rule firstMatch_none) (auto simp add: none)
    then show ?thesis unfolding a by (simp add: stripStart_count)
  next
    case False
    have "regExpExec ?R s 0 = None"
      unfolding regExpExec_plain[OF trimRegExp_sel(5)]
      by (rule firstMatch_none) (use False in \<open>auto simp add: matchAt_start_none\<close>)
    then show ?thesis by (simp add: stripStart_none[OF False])
  qed
  then show ?thesis
    by (simp add: charsTrimStart_def assms(2) new_RegExp_global[OF parsePattern_start] bind_def replace_empty)
qed

lemma charsTrim_unit:
  assumes "t \<noteq> []" and "t \<noteq> js '' ''"
  shows "charsTrim s t = Inr (stripEnd t (stripStart t s))"
proof -
  let ?R = "trimRegExp (bothAst t) (Suc (Suc 0))"
  have "assemble s (\<lambda>x. []) (allMatches (Suc (Suc (length s))) ?R s 0) 0 = stripEnd t (stripStart t s)"
  proof (cases "tokenAt t s 0")
    case True
    let ?e = "tokenCount t s * length t"
    note l = lead_matches[OF assms(1) True matchAt_both_some[OF assms(1) True, of "Suc (Suc 0)"]]
    obtain cs f where f: "length s = Suc f"
      and a: "allMatches (Suc (Suc (length s))) ?R s 0 = (0, ?e, cs) # allMatches (Suc (Suc f)) ?R s ?e"
      using l(1) by blast
    have tail: "map_option fst (matchAt ?R s j) = (if tailTokens t s j then Some (length s) else None)"
      if j1: "?e \<le> j" and j2: "j \<le> length s" for j
    proof -
      have "0 < j" using j1 l(2) by linarith
      then have "\<not> tokenAt t s 0 \<or> 0 < j" by simp
      then show ?thesis by (rule matchAt_both_tail[OF assms(1) _ j2])
    qed
    have "assemble s (\<lambda>x. []) (allMatches (Suc (Suc f)) ?R s ?e) ?e = stripEnd t (drop ?e s)"
      by (rule tail_assemble[OF tail assms(1) l(3)])
    then show ?thesis unfolding a by (simp add: stripStart_count del: allMatches.simps)
  next
    case False
    have "assemble s (\<lambda>x. []) (allMatches (Suc (Suc (length s))) ?R s 0) 0 = stripEnd t (drop 0 s)"
      by (rule tail_assemble[OF matchAt_both_tail[OF assms(1)] assms(1)]) (use False in simp_all)
    then show ?thesis by (simp add: stripStart_none[OF False])
  qed
  then show ?thesis
    by (simp add: charsTrim_def assms(2) new_RegExp_global[OF parsePattern_both] bind_def replace_empty)
qed

text \<open>The empty token: every match is empty, and the text stays as it is.\<close>

lemma star_empty:
  "rx_match E (tokenStar g []) n k (p, cs) = k (p, cs)"
  unfolding tokenStar_def
  by (subst star_greedy_unfold) (simp add: rx_match.simps(1,7))

lemma plus_empty:
  assumes "\<not> ignoreCase E"
  shows "rx_match E (tokenPlus g []) (Suc n) k (p, cs) = k (p, cs[g - 1 := Some (p, p)])"
  by (simp add: plus_step[OF assms] star_empty tokenAt_def)

lemma start_empty:
  assumes "\<not> ignoreCase E" and "\<not> multiline E" and "budget E = Suc b"
  shows "rx_match E (startAst []) n Some (i, cs)
         = (if i = 0 then Some (0, cs[0 := Some (0, 0)]) else None)"
  by (simp add: startAst_def rx_match.simps(1,5,8) assms(2,3) plus_empty[OF assms(1)])

lemma end_empty:
  assumes "\<not> ignoreCase E" and "\<not> multiline E" and "budget E = Suc b"
  shows "rx_match E (endAst g []) n Some (i, cs)
         = (if i = length (input E) then Some (i, cs[g - 1 := Some (i, i)]) else None)"
  by (simp add: endAst_def rx_match.simps(1,6,8) assms(2,3) plus_empty[OF assms(1)])

lemma matchAt_start_empty:
  "matchAt (trimRegExp (startAst []) g) s i
   = (if i = 0 then Some (0, (replicate g None)[0 := Some (0, 0)]) else None)"
  unfolding matchAt_def trimRegExp_sel
  by (rule start_empty[where b = "length s + maxMin (startAst [])"]) (simp_all add: trim_env)

lemma matchAt_end_empty:
  "matchAt (trimRegExp (endAst g' []) g) s i
   = (if i = length s then Some (i, (replicate g None)[g' - 1 := Some (i, i)]) else None)"
  unfolding matchAt_def trimRegExp_sel
  using end_empty[of "rx_env_of (trimRegExp (endAst g' []) g) s" "length s + maxMin (endAst g' [])"]
  by (simp add: trim_env)

lemma matchAt_both_empty:
  "matchAt (trimRegExp (bothAst []) g) s i
   = (if i = 0 then Some (0, (replicate g None)[0 := Some (0, 0)])
      else if i = length s then Some (i, (replicate g None)[Suc 0 := Some (i, i)]) else None)"
proof -
  let ?E = "rx_env_of (trimRegExp (bothAst []) g) s"
  have a: "rx_match ?E (startAst []) n Some (i, cs) = (if i = 0 then Some (0, cs[0 := Some (0, 0)]) else None)"
    for n cs
    by (rule start_empty[where b = "length s + maxMin (bothAst [])"]) (simp_all add: trim_env)
  have b: "rx_match ?E (endAst (Suc (Suc 0)) []) n Some (i, cs)
           = (if i = length s then Some (i, cs[Suc 0 := Some (i, i)]) else None)" for n cs
    using end_empty[of ?E "length s + maxMin (bothAst [])" "Suc (Suc 0)" n i cs]
    by (simp add: trim_env)
  show ?thesis
    unfolding matchAt_def trimRegExp_sel both_alt a b by simp
qed

lemma exec_past_end: "regExpExec R s (Suc (length s)) = None"
  by (simp add: regExpExec_def)

lemma exec_at_end:
  assumes "\<And>i. a \<le> i \<Longrightarrow> i < length s \<Longrightarrow> matchAt (trimRegExp ast g) s i = None"
    and "matchAt (trimRegExp ast g) s (length s) = Some (length s, cs)" and "a \<le> length s"
  shows "regExpExec (trimRegExp ast g) s a = Some (length s, length s, cs)"
  unfolding regExpExec_plain[OF trimRegExp_sel(5)]
  by (rule firstMatch_found[OF assms(3) _ assms(1,2)]) simp_all

lemma exec_at_start:
  assumes "matchAt (trimRegExp ast g) s 0 = Some (e, cs)"
  shows "regExpExec (trimRegExp ast g) s 0 = Some (0, e, cs)"
  unfolding regExpExec_plain[OF trimRegExp_sel(5)]
  by (rule firstMatch_found[OF _ _ _ assms]) simp_all

lemma charsTrimStart_via:
  "t \<noteq> js '' '' \<Longrightarrow>
   charsTrimStart s t
   = Inr (assemble s (\<lambda>x. []) (allMatches (Suc (Suc (length s))) (trimRegExp (startAst t) (Suc 0)) s 0) 0)"
  by (simp add: charsTrimStart_def new_RegExp_global[OF parsePattern_start] bind_def replace_empty
           del: allMatches.simps)

lemma charsTrimEnd_via:
  "t \<noteq> js '' '' \<Longrightarrow>
   charsTrimEnd s t
   = Inr (assemble s (\<lambda>x. []) (allMatches (Suc (Suc (length s))) (trimRegExp (endAst (Suc 0) t) (Suc 0)) s 0) 0)"
  by (simp add: charsTrimEnd_def new_RegExp_global[OF parsePattern_end] bind_def replace_empty
           del: allMatches.simps)

lemma charsTrim_via:
  "t \<noteq> js '' '' \<Longrightarrow>
   charsTrim s t
   = Inr (assemble s (\<lambda>x. []) (allMatches (Suc (Suc (length s))) (trimRegExp (bothAst t) (Suc (Suc 0))) s 0) 0)"
  by (simp add: charsTrim_def new_RegExp_global[OF parsePattern_both] bind_def replace_empty
           del: allMatches.simps)

lemma empty_not_space: "[] \<noteq> js '' ''"
  by (simp add: js_def)

lemma strip_empty: "stripStart [] s = s" "stripEnd [] s = s"
  by (simp_all add: stripStart_count stripEnd_count)

lemma charsTrimStart_empty: "charsTrimStart s [] = Inr s"
proof -
  let ?R = "trimRegExp (startAst []) (Suc 0)"
  have e0: "regExpExec ?R s 0 = Some (0, 0, [Some (0, 0)])"
    by (rule exec_at_start) (simp add: matchAt_start_empty)
  have e1: "regExpExec ?R s (Suc 0) = None"
    unfolding regExpExec_plain[OF trimRegExp_sel(5)] by (rule firstMatch_none) (auto simp add: matchAt_start_empty)
  have "allMatches (Suc (Suc (length s))) ?R s 0 = [(0, 0, [Some (0, 0)])]"
    by (simp add: e0 e1)
  then show ?thesis
    by (simp add: charsTrimStart_via[OF empty_not_space] del: allMatches.simps)
qed

lemma charsTrimEnd_empty: "charsTrimEnd s [] = Inr s"
proof -
  let ?R = "trimRegExp (endAst (Suc 0) []) (Suc 0)"
  have e0: "regExpExec ?R s 0 = Some (length s, length s, [Some (length s, length s)])"
    by (rule exec_at_end) (simp_all add: matchAt_end_empty)
  have "allMatches (Suc (Suc (length s))) ?R s 0 = [(length s, length s, [Some (length s, length s)])]"
    by (simp add: e0 exec_past_end)
  then show ?thesis
    by (simp add: charsTrimEnd_via[OF empty_not_space] del: allMatches.simps)
qed

lemma charsTrim_empty: "charsTrim s [] = Inr s"
proof -
  let ?R = "trimRegExp (bothAst []) (Suc (Suc 0))"
  have e0: "regExpExec ?R s 0 = Some (0, 0, [Some (0, 0), None])"
    by (rule exec_at_start) (simp add: matchAt_both_empty)
  have "assemble s (\<lambda>x. []) (allMatches (Suc (length s)) ?R s (Suc 0)) 0 = s"
  proof (cases "length s")
    case 0
    then have "regExpExec ?R s (Suc 0) = None" by (simp add: regExpExec_plain[OF trimRegExp_sel(5)])
    then show ?thesis by simp
  next
    case (Suc f)
    have e1: "regExpExec ?R s (Suc 0) = Some (length s, length s, [None, Some (length s, length s)])"
      by (rule exec_at_end) (use Suc in \<open>simp_all add: matchAt_both_empty\<close>)
    have "allMatches (Suc (length s)) ?R s (Suc 0) = [(length s, length s, [None, Some (length s, length s)])]"
      by (simp add: e1 Suc exec_past_end[of ?R s, unfolded Suc])
    then show ?thesis by (simp del: allMatches.simps)
  qed
  moreover have "allMatches (Suc (Suc (length s))) ?R s 0
                 = (0, 0, [Some (0, 0), None]) # allMatches (Suc (length s)) ?R s (Suc 0)"
    by (simp add: e0)
  ultimately show ?thesis
    by (simp add: charsTrim_via[OF empty_not_space] del: allMatches.simps)
qed

lemma charsTrim_strip:
  assumes "t \<noteq> js '' ''"
  shows "charsTrim s t = Inr (stripEnd t (stripStart t s))"
    and "charsTrimStart s t = Inr (stripStart t s)"
    and "charsTrimEnd s t = Inr (stripEnd t s)"
proof -
  show "charsTrim s t = Inr (stripEnd t (stripStart t s))"
    using assms by (cases "t = []") (simp_all add: charsTrim_empty strip_empty charsTrim_unit)
  show "charsTrimStart s t = Inr (stripStart t s)"
    using assms by (cases "t = []") (simp_all add: charsTrimStart_empty strip_empty charsTrimStart_unit)
  show "charsTrimEnd s t = Inr (stripEnd t s)"
    using assms by (cases "t = []") (simp_all add: charsTrimEnd_empty strip_empty charsTrimEnd_unit)
qed

text \<open>
  C8, as stated: trimming as a unit strips the trim string, as one token, from the ends of
  the text. With the trim string of one space, which is the default, the ends are trimmed
  of all white space: a tab, a space and \<^verbatim>\<open>x\<close> give \<^verbatim>\<open>x\<close>, where stripping the token leaves the
  text as it is, since it does not start with a space.
\<close>

theorem trim_as_unit_space_counterexample:
  "manipulate no_libs 0 (Trim \<lparr>trim = ''trimBoth'', trimString = js '' '', trimStringUnit = True\<rparr>) (0x09 # js '' x'')
     = Inr (js ''x'')
   \<and> stripEnd (js '' '') (stripStart (js '' '') (0x09 # js '' x'')) = 0x09 # js '' x''
   \<and> manipulate no_libs 0 (Trim \<lparr>trim = ''trimBoth'', trimString = js '' '', trimStringUnit = True\<rparr>) (0x09 # js '' x'')
     \<noteq> Inr (stripEnd (js '' '') (stripStart (js '' '') (0x09 # js '' x'')))"
  by code_simp

text \<open>
  C8, amended: with a trim string other than a single space, trimming as a unit removes
  the whole trim string, as one token, from the start and from the end of the text for as
  long as it is there: \<^verbatim>\<open>trimBoth\<close> is \<open>stripEnd\<close> after \<open>stripStart\<close>, \<^verbatim>\<open>trimStart\<close> is \<open>stripStart\<close> and
  \<^verbatim>\<open>trimEnd\<close> is \<open>stripEnd\<close>. Trimming \<^verbatim>\<open>ab\<close> from both ends of \<^verbatim>\<open>ababXab\<close> gives \<^verbatim>\<open>X\<close>, as a unit and per
  character; trimming \<^verbatim>\<open>ba\<close> as a unit leaves \<^verbatim>\<open>ababXab\<close> unchanged.
\<close>

theorem trim_as_unit:
  "(t \<noteq> js '' '' \<longrightarrow>
      manipulate L i (Trim \<lparr>trim = ''trimBoth'', trimString = t, trimStringUnit = True\<rparr>) s
        = Inr (stripEnd t (stripStart t s))
    \<and> manipulate L i (Trim \<lparr>trim = ''trimStart'', trimString = t, trimStringUnit = True\<rparr>) s
        = Inr (stripStart t s)
    \<and> manipulate L i (Trim \<lparr>trim = ''trimEnd'', trimString = t, trimStringUnit = True\<rparr>) s
        = Inr (stripEnd t s))
   \<and> manipulate L i (Trim \<lparr>trim = ''trimBoth'', trimString = js ''ab'', trimStringUnit = True\<rparr>) (js ''ababXab'')
     = Inr (js ''X'')
   \<and> manipulate L i (Trim \<lparr>trim = ''trimBoth'', trimString = js ''ab'', trimStringUnit = False\<rparr>) (js ''ababXab'')
     = Inr (js ''X'')
   \<and> manipulate L i (Trim \<lparr>trim = ''trimBoth'', trimString = js ''ba'', trimStringUnit = True\<rparr>) (js ''ababXab'')
     = Inr (js ''ababXab'')"
proof -
  have ex: "manipulate L i (Trim \<lparr>trim = ''trimBoth'', trimString = js ''ab'', trimStringUnit = True\<rparr>) (js ''ababXab'')
       = Inr (js ''X'')
     \<and> manipulate L i (Trim \<lparr>trim = ''trimBoth'', trimString = js ''ab'', trimStringUnit = False\<rparr>) (js ''ababXab'')
       = Inr (js ''X'')
     \<and> manipulate L i (Trim \<lparr>trim = ''trimBoth'', trimString = js ''ba'', trimStringUnit = True\<rparr>) (js ''ababXab'')
       = Inr (js ''ababXab'')"
    by code_simp
  show ?thesis
    using ex by (simp add: trim_action_def charsTrim_strip)
qed

theorem trim_as_unit_witness:
  "js ''ab'' \<noteq> js '' ''
   \<and> manipulate no_libs 0 (Trim \<lparr>trim = ''trimBoth'', trimString = js ''ab'', trimStringUnit = True\<rparr>) (js ''abXabab'')
     = Inr (js ''X'')
   \<and> manipulate no_libs 0 (Trim \<lparr>trim = ''trimStart'', trimString = js ''ab'', trimStringUnit = True\<rparr>) (js ''ababXab'')
     = Inr (js ''Xab'')
   \<and> manipulate no_libs 0 (Trim \<lparr>trim = ''trimEnd'', trimString = js ''ab'', trimStringUnit = True\<rparr>) (js ''ababXab'')
     = Inr (js ''ababX'')"
proof -
  have a: "js ''ab'' \<noteq> js '' ''" by (simp add: js_def)
  have b: "stripEnd (js ''ab'') (stripStart (js ''ab'') (js ''abXabab'')) = js ''X''" by code_simp
  have c: "stripStart (js ''ab'') (js ''ababXab'') = js ''Xab''" by code_simp
  have d: "stripEnd (js ''ab'') (js ''ababXab'') = js ''ababX''" by code_simp
  show ?thesis
    using trim_as_unit[of "js ''ab''" no_libs 0 "js ''abXabab''"]
          trim_as_unit[of "js ''ab''" no_libs 0 "js ''ababXab''"] a b c d
    by simp
qed

subsection \<open>The input item is not modified\<close>

lemma props_append: "props (h @ [JObj []]) a = (if a = length h then Some [] else props h a)"
  by (auto simp add: props_def nth_append)

lemma props_append_bin: "props (h @ [BinMap []]) a = props h a"
  by (auto simp add: props_def nth_append)

lemma setProp_set: "(k', v') \<in> set (setProp ps k v) \<Longrightarrow> (k', v') = (k, v) \<or> (k', v') \<in> set ps"
  by (induction ps k v rule: setProp.induct) (auto split: if_splits)

lemma length_assignValue [simp]: "length (assignValue h a k v) = length h"
  by (simp add: assignValue_def split: option.splits)

lemma take_assignValue: "n \<le> a \<Longrightarrow> take n (assignValue h a k v) = take n h"
  by (simp add: assignValue_def split: option.splits)

lemma props_assignValue:
  "props (assignValue h a k v) a' =
     (if a' = a then map_option (\<lambda>ps. setProp ps k v) (props h a) else props h a')"
  by (auto simp add: assignValue_def props_def split: option.splits cell.splits)

lemma closed_assignValue:
  "fresh_closed n h \<Longrightarrow> ref_above n v \<Longrightarrow> fresh_closed n (assignValue h a k v)"
  unfolding fresh_closed_def
  by (auto simp add: props_assignValue split: if_splits dest!: setProp_set)

lemma closed_append: "fresh_closed n h \<Longrightarrow> fresh_closed n (h @ [JObj []])"
  unfolding fresh_closed_def by (auto simp add: props_append split: if_splits)

lemma closed_append_bin: "fresh_closed n h \<Longrightarrow> fresh_closed n (h @ [BinMap []])"
  unfolding fresh_closed_def by (auto simp add: props_append_bin)

lemma closed_ref:
  "fresh_closed n h \<Longrightarrow> n \<le> a \<Longrightarrow> props h a = Some ps \<Longrightarrow> valOf (getProp ps k) = Ref b \<Longrightarrow> n \<le> b"
  unfolding fresh_closed_def getProp_def valOf_def ref_above_def
  by (auto split: option.splits dest!: map_of_SomeD) force

lemma baseSet_frame:
  "fresh_closed n h \<Longrightarrow> n \<le> nested \<Longrightarrow> ref_above n v \<Longrightarrow> n \<le> length h \<Longrightarrow>
   take n (baseSet h nested path v) = take n h \<and> fresh_closed n (baseSet h nested path v)
   \<and> length h \<le> length (baseSet h nested path v)"
proof (induction h nested path v rule: baseSet.induct)
  case (1 h nested v)
  then show ?case by simp
next
  case (2 h nested k v)
  then show ?case by (simp add: take_assignValue closed_assignValue)
next
  case (3 h nested k k' ks v)
  show ?case
  proof (cases "unsafeKey k")
    case True
    then show ?thesis using 3 by simp
  next
    case False
    show ?thesis
    proof (cases "props h nested")
      case None
      then show ?thesis using False 3 by simp
    next
      case (Some ps)
      let ?h1 = "assignValue (h @ [JObj []]) nested k (Ref (length h))"
      have h1: "take n ?h1 = take n h" "fresh_closed n ?h1" "n \<le> length ?h1" "length h \<le> length ?h1"
        using 3(7-10) by (simp_all add: take_assignValue closed_assignValue closed_append ref_above_def)
      show ?thesis
      proof (cases "valOf (getProp ps k)")
        case (Ref b)
        then have "n \<le> b" using closed_ref[OF 3(7) 3(8) Some] by simp
        then show ?thesis using 3(6)[OF False Some Ref] 3(7,9,10) False Some Ref by simp
      next
        case Undefined
        then show ?thesis
          using 3(1)[OF False Some Undefined h1(2) 3(10) 3(9) h1(3)] h1 False Some by simp
      next
        case Null
        then show ?thesis
          using 3(2)[OF False Some Null h1(2) 3(10) 3(9) h1(3)] h1 False Some by simp
      next
        case (Bool x)
        then show ?thesis
          using 3(3)[OF False Some Bool h1(2) 3(10) 3(9) h1(3)] h1 False Some by simp
      next
        case (Num x)
        then show ?thesis
          using 3(4)[OF False Some Num h1(2) 3(10) 3(9) h1(3)] h1 False Some by simp
      next
        case (Str x)
        then show ?thesis
          using 3(5)[OF False Some Str h1(2) 3(10) 3(9) h1(3)] h1 False Some by simp
      qed
    qed
  qed
qed


lemma deepCopy_frame:
  "(n \<le> length h \<longrightarrow> fresh_closed n h \<longrightarrow> hash_above n hash \<longrightarrow>
      deepCopy fuel v hash h = Some (v', hash', h') \<longrightarrow>
      take n h' = take n h \<and> length h \<le> length h' \<and> fresh_closed n h' \<and> hash_above n hash'
      \<and> ref_above n v')"
  "(n \<le> length h \<longrightarrow> n \<le> clone \<longrightarrow> fresh_closed n h \<longrightarrow> hash_above n hash \<longrightarrow>
      deepCopyProps fuel ps clone hash h = Some (hash', h') \<longrightarrow>
      take n h' = take n h \<and> length h \<le> length h' \<and> fresh_closed n h' \<and> hash_above n hash')"
proof (induction fuel v hash h and fuel ps clone hash h arbitrary: v' hash' h' and hash' h'
       rule: deepCopy_deepCopyProps.induct)
  case (1 fuel a hash h)
  show ?case
  proof (intro impI)
    assume n: "n \<le> length h" and cl: "fresh_closed n h" and ha: "hash_above n hash"
      and dc: "deepCopy fuel (Ref a) hash h = Some (v', hash', h')"
    show "take n h' = take n h \<and> length h \<le> length h' \<and> fresh_closed n h' \<and> hash_above n hash' \<and> ref_above n v'"
    proof (cases "map_of hash a")
      case (Some c)
      then have "n \<le> c" using ha by (auto simp add: hash_above_def dest!: map_of_SomeD)
      then show ?thesis using dc Some n cl ha by (auto simp add: ref_above_def)
    next
      case None
      show ?thesis
      proof (cases fuel)
        case 0
        then show ?thesis using dc None by simp
      next
        case (Suc f)
        show ?thesis
        proof (cases "props h a")
          case pn: None
          then show ?thesis using dc None Suc by simp
        next
          case (Some ps)
          from dc None Suc Some obtain hash1 h1 where
            r: "deepCopyProps f ps (length h) ((a, length h) # hash) (h @ [JObj []]) = Some (hash1, h1)"
            and eq: "v' = Ref (length h)" "hash' = hash1" "h' = h1"
            by (auto split: option.splits)
          have ha2: "hash_above n ((a, length h) # hash)"
            using ha n by (auto simp add: hash_above_def)
          have "take n h1 = take n (h @ [JObj []]) \<and> length (h @ [JObj []]) \<le> length h1
                \<and> fresh_closed n h1 \<and> hash_above n hash1"
            using 1(1)[OF None Suc Some, of hash1 h1] n closed_append[OF cl] ha2 r by simp
          then show ?thesis using eq n by (simp add: ref_above_def)
        qed
      qed
    qed
  qed
next
  case (8 fuel k v ps clone hash h)
  show ?case
  proof (intro impI)
    assume n: "n \<le> length h" and c: "n \<le> clone" and cl: "fresh_closed n h" and ha: "hash_above n hash"
      and dc: "deepCopyProps fuel ((k, v) # ps) clone hash h = Some (hash', h')"
    from dc obtain v1 hash1 h1 where
      r1: "deepCopy fuel v hash h = Some (v1, hash1, h1)"
      and r2: "deepCopyProps fuel ps clone hash1 (assignValue h1 clone k v1) = Some (hash', h')"
      by (auto split: option.splits)
    have s1: "take n h1 = take n h" "length h \<le> length h1" "fresh_closed n h1" "hash_above n hash1" "ref_above n v1"
      using 8(1)[of v1 hash1 h1] n cl ha r1 by simp_all
    have "take n h' = take n (assignValue h1 clone k v1) \<and> length (assignValue h1 clone k v1) \<le> length h'
          \<and> fresh_closed n h' \<and> hash_above n hash'"
      using 8(2)[OF r1 refl refl, of hash' h'] s1 n c r2 closed_assignValue[OF s1(3) s1(5)] by simp
    then show "take n h' = take n h \<and> length h \<le> length h' \<and> fresh_closed n h' \<and> hash_above n hash'"
      using s1 c by (simp add: take_assignValue)
  qed
qed (auto simp add: ref_above_def)


lemma length_assignBinary [simp]: "length (assignBinary h a k v) = length h"
  by (simp add: assignBinary_def split: cell.splits)

lemma take_assignBinary: "n \<le> a \<Longrightarrow> take n (assignBinary h a k v) = take n h"
  by (simp add: assignBinary_def split: cell.splits)

lemma props_assignBinary: "props (assignBinary h a k v) a' = props h a'"
  by (cases "a' = a") (auto simp add: assignBinary_def props_def split: cell.splits)

lemma closed_assignBinary: "fresh_closed n h \<Longrightarrow> fresh_closed n (assignBinary h a k v)"
  unfolding fresh_closed_def by (simp add: props_assignBinary)

lemma fold_assignBinary:
  "n \<le> target \<Longrightarrow> fresh_closed n h \<Longrightarrow>
   take n (fold (\<lambda>(k, v) h'. assignBinary h' target k v) es h) = take n h
   \<and> length (fold (\<lambda>(k, v) h'. assignBinary h' target k v) es h) = length h
   \<and> fresh_closed n (fold (\<lambda>(k, v) h'. assignBinary h' target k v) es h)"
proof (induction es arbitrary: h)
  case Nil
  then show ?case by simp
next
  case (Cons e es)
  obtain k v where e: "e = (k, v)" by (cases e)
  show ?case
    using Cons.IH[of "assignBinary h target k v"] Cons.prems
    by (simp add: e take_assignBinary closed_assignBinary)
qed

lemma objectAssign_frame:
  "n \<le> target \<Longrightarrow> fresh_closed n h \<Longrightarrow>
   take n (objectAssign h target source) = take n h \<and> length (objectAssign h target source) = length h
   \<and> fresh_closed n (objectAssign h target source)"
  unfolding objectAssign_def by (rule fold_assignBinary)

lemma lodash_set_frame:
  "fresh_closed n h \<Longrightarrow> n \<le> j \<Longrightarrow> n \<le> length h \<Longrightarrow>
   take n (lodash_set L h j path (Str t)) = take n h \<and> fresh_closed n (lodash_set L h j path (Str t))
   \<and> length h \<le> length (lodash_set L h j path (Str t))"
  unfolding lodash_set_def
  using baseSet_frame[of n h j "Str t"]
  by (auto simp add: ref_above_def split: option.splits)

lemma writeResult_frame:
  assumes "writeResult L i j b ds t h = Inr h'" "fresh_closed n h" "n \<le> j" "n \<le> b" "n \<le> length h"
  shows "take n h' = take n h \<and> fresh_closed n h' \<and> length h \<le> length h'"
proof (cases "writeOperation ds = ''toFile''")
  case True
  then obtain buf where "h' = assignBinary h b (destinationBinaryPropertyName ds) (prepareBinaryData L buf (fileName ds) (mimeType ds))"
    using assms(1) by (auto simp add: writeResult_def bind_def split: sum.splits)
  then show ?thesis using assms by (simp add: take_assignBinary closed_assignBinary)
next
  case False
  then have "h' = lodash_set L h j (destinationKey ds) (Str t)"
    using assms(1) by (auto simp add: writeResult_def split: if_splits)
  then show ?thesis using lodash_set_frame[OF assms(2,3,5)] by simp
qed

lemma processDataSource_frame:
  assumes "processDataSource L i it j b ms ds h = Inr h'" "fresh_closed n h" "n \<le> j" "n \<le> b" "n \<le> length h"
  shows "take n h' = take n h \<and> fresh_closed n h' \<and> length h \<le> length h'"
proof (cases "readSource L i h it j b ds")
  case (Inl e)
  then show ?thesis using assms(1) by (simp add: processDataSource_def bind_def)
next
  case (Inr r)
  show ?thesis
  proof (cases r)
    case None
    then show ?thesis using assms Inr by (simp add: processDataSource_def bind_def)
  next
    case (Some t0)
    then obtain t where "writeResult L i j b ds t h = Inr h'"
      using assms(1) Inr by (auto simp add: processDataSource_def bind_def split: sum.splits)
    then show ?thesis using writeResult_frame assms(2-5) by blast
  qed
qed

lemma processDataSources_frame:
  "processDataSources L i it j b ms dss h = Inr h' \<Longrightarrow> fresh_closed n h \<Longrightarrow> n \<le> j \<Longrightarrow> n \<le> b \<Longrightarrow>
   n \<le> length h \<Longrightarrow> take n h' = take n h \<and> fresh_closed n h' \<and> length h \<le> length h'"
proof (induction dss arbitrary: h)
  case Nil
  then show ?case by simp
next
  case (Cons ds dss)
  from Cons.prems(1) obtain h1 where
    s1: "processDataSource L i it j b ms ds h = Inr h1" and s2: "processDataSources L i it j b ms dss h1 = Inr h'"
    by (auto simp add: bind_def split: sum.splits)
  have f1: "take n h1 = take n h \<and> fresh_closed n h1 \<and> length h \<le> length h1"
    using processDataSource_frame[OF s1 Cons.prems(2-5)] .
  then have "take n h' = take n h1 \<and> fresh_closed n h' \<and> length h1 \<le> length h'"
    using Cons.IH[OF s2] Cons.prems(3-5) by simp
  then show ?case using f1 by simp
qed

lemma processGroups_frame:
  "processGroups L i it j b gs h = Inr h' \<Longrightarrow> fresh_closed n h \<Longrightarrow> n \<le> j \<Longrightarrow> n \<le> b \<Longrightarrow>
   n \<le> length h \<Longrightarrow> take n h' = take n h \<and> fresh_closed n h' \<and> length h \<le> length h'"
proof (induction gs arbitrary: h)
  case Nil
  then show ?case by simp
next
  case (Cons g gs)
  from Cons.prems(1) obtain h1 where
    s1: "processDataSources L i it j b (manipulations g) (dataSources g) h = Inr h1"
    and s2: "processGroups L i it j b gs h1 = Inr h'"
    by (auto simp add: bind_def split: sum.splits)
  have f1: "take n h1 = take n h \<and> fresh_closed n h1 \<and> length h \<le> length h1"
    using processDataSources_frame[OF s1 Cons.prems(2-5)] .
  then have "take n h' = take n h1 \<and> fresh_closed n h' \<and> length h1 \<le> length h'"
    using Cons.IH[OF s2] Cons.prems(3-5) by simp
  then show ?case using f1 by simp
qed

lemma closed_start: "fresh_closed (length h) (h @ [JObj []] @ [BinMap []])"
proof -
  have "props (h @ [JObj []] @ [BinMap []]) a = (if a = length h then Some [] else props h a)" for a
    using props_append_bin[of "h @ [JObj []]" a] props_append[of h a] by simp
  moreover have "length h \<le> a \<Longrightarrow> props h a = None" for a
    by (simp add: props_def)
  ultimately show ?thesis
    unfolding fresh_closed_def by (auto split: if_splits)
qed

lemma initItem_frame:
  assumes "initItem keepOnlySet it h = Inr (j, b, h1)"
  shows "take (length h) h1 = h \<and> fresh_closed (length h) h1 \<and> length h \<le> j \<and> length h \<le> b
         \<and> length h \<le> length h1"
proof (cases keepOnlySet)
  case True
  then show ?thesis using assms closed_start[of h] by (auto simp add: initItem_def Let_def)
next
  case False
  let ?n = "length h"
  let ?h2 = "h @ [JObj []] @ [BinMap []]"
  let ?h3 = "case binary it of None \<Rightarrow> ?h2 | Some s \<Rightarrow> objectAssign ?h2 (Suc ?n) s"
  have h3: "take ?n ?h3 = h \<and> length ?h3 = ?n + 2 \<and> fresh_closed ?n ?h3"
    using objectAssign_frame[of ?n "Suc ?n" ?h2] closed_start[of h]
    by (auto split: option.splits)
  from assms False obtain c hash where
    dc: "deepCopy (Suc (length ?h3)) (Ref (json it)) [] ?h3 = Some (Ref c, hash, h1)" and jb: "j = c" "b = Suc ?n"
    by (auto simp add: initItem_def Let_def split: option.splits val.splits prod.splits)
  have "take ?n h1 = take ?n ?h3 \<and> length ?h3 \<le> length h1 \<and> fresh_closed ?n h1 \<and> ref_above ?n (Ref c)"
    using deepCopy_frame(1)[of ?n ?h3 "[]" "Suc (length ?h3)" "Ref (json it)" "Ref c" hash h1] h3 dc
    by (simp add: hash_above_def)
  then show ?thesis using h3 jb by (simp add: ref_above_def)
qed

lemma processItem_frame_aux:
  assumes "processItem L i keepOnlySet groups it h = Inr (out, h')"
  shows "take (length h) h' = h \<and> length h \<le> length h' \<and> length h \<le> out_json out
         \<and> (\<forall>b. out_binary out = Some b \<longrightarrow> length h \<le> b)"
proof -
  from assms obtain j b h1 where
    i1: "initItem keepOnlySet it h = Inr (j, b, h1)"
    and g: "processGroups L i it j b groups h1 = Inr h'"
    and o: "out = \<lparr>out_json = j, out_binary = (if entries h' b = [] then None else Some b), pairedItem = i\<rparr>"
    by (auto simp add: processItem_def bind_def split: sum.splits)
  have f1: "take (length h) h1 = h \<and> fresh_closed (length h) h1 \<and> length h \<le> j \<and> length h \<le> b
            \<and> length h \<le> length h1"
    using initItem_frame[OF i1] .
  then have "take (length h) h' = take (length h) h1 \<and> fresh_closed (length h) h' \<and> length h1 \<le> length h'"
    using processGroups_frame[OF g, of "length h"] by simp
  then show ?thesis using f1 o by simp
qed

lemma executeFrom_frame:
  "executeFrom L kos grps i its h = Inr (outs, h') \<Longrightarrow> take (length h) h' = h \<and> length h \<le> length h'"
proof (induction its arbitrary: i h outs)
  case Nil
  then show ?case by simp
next
  case (Cons it its)
  from Cons.prems obtain out h1 outs1 where
    p: "processItem L i (kos i) (grps i) it h = Inr (out, h1)"
    and e: "executeFrom L kos grps (Suc i) its h1 = Inr (outs1, h')"
    by (auto simp add: bind_def split: sum.splits prod.splits)
  have f1: "take (length h) h1 = h \<and> length h \<le> length h1"
    using processItem_frame_aux[OF p] by simp
  have f2: "take (length h1) h' = h1 \<and> length h1 \<le> length h'"
    using Cons.IH[OF e] .
  have "take (length h) h' = take (length h) (take (length h1) h')"
    using f1 by (simp add: min_def)
  then show ?case using f1 f2 by simp
qed




text \<open>The same for the whole of \<^verbatim>\<open>execute\<close>: the store it was given is a prefix of the store it leaves.\<close>

lemma execute_frame:
  "execute L keepOnlySet groups items h = Inr (outs, h') \<Longrightarrow> take (length h) h' = h"
  unfolding execute_def using executeFrom_frame by blast

end
